theory Spec2Isabelle
  imports Main "HOL-Library.List_Lexorder" "HOL-Library.Product_Lexorder" "HOL-Library.Sublist"
    "HOL-Library.Multiset"
begin

section \<open>JavaScript strings\<close>

text \<open>
  A JavaScript string is a sequence of UTF-16 code units; a code unit is modelled as a
  natural number. The emoji used by the status labels lie partly outside the Basic
  Multilingual Plane and are then two code units (a surrogate pair).
  \<open>js\<close> turns an ASCII literal into such a string.
\<close>

type_synonym jsstring = "nat list"

definition js :: "string \<Rightarrow> jsstring" where
  "js s = map of_char s"

text \<open>
  \<open>String.prototype.toLowerCase\<close>: the letters \<open>A\<close> to \<open>Z\<close> go to \<open>a\<close> to \<open>z\<close>.
  The case table of the runtime beyond Basic Latin is not part of the repository and is
  not modelled: every other code unit is left as it is (which is what the runtime does
  with digits, punctuation, white space and the emoji of the status labels).
\<close>

definition lower_unit :: "nat \<Rightarrow> nat" where
  "lower_unit c = (if 65 \<le> c \<and> c \<le> 90 then c + 32 else c)"

definition toLowerCase :: "jsstring \<Rightarrow> jsstring" where
  "toLowerCase s = map lower_unit s"

text \<open>
  The white space of \<open>\s\<close> and of \<open>trim()\<close>: tab, line feed, vertical tab, form feed,
  carriage return, space, U+00A0, U+1680, U+2000 to U+200A, U+2028, U+2029, U+202F,
  U+205F, U+3000 and U+FEFF.
\<close>

definition is_space :: "nat \<Rightarrow> bool" where
  "is_space c = (c \<in> set [9, 10, 11, 12, 13, 32, 160, 5760, 8232, 8233, 8239, 8287, 12288, 65279]
                 \<or> (8192 \<le> c \<and> c \<le> 8202))"

definition trim :: "jsstring \<Rightarrow> jsstring" where
  "trim s = rev (dropWhile is_space (rev (dropWhile is_space s)))"

text \<open>\<open>s.replace(/\s+/g, r)\<close>: every maximal run of white space becomes \<open>r\<close>.\<close>

function replace_space_runs :: "jsstring \<Rightarrow> jsstring \<Rightarrow> jsstring" where
  "replace_space_runs r [] = []"
| "replace_space_runs r (c # cs) =
     (if is_space c then r @ replace_space_runs r (dropWhile is_space cs)
      else c # replace_space_runs r cs)"
  by pat_completeness auto
termination
  by (relation "measure (\<lambda>(r, s). length s)")
     (auto simp: length_dropWhile_le less_Suc_eq_le)

text \<open>
  \<open>s.split(/\s+/)\<close>: the pieces between the maximal runs of white space; a string that
  starts or ends with white space gives an empty first or last piece, and the empty
  string gives one empty piece.
\<close>

function split_space_runs :: "jsstring \<Rightarrow> jsstring list" where
  "split_space_runs s =
     (case dropWhile (\<lambda>c. \<not> is_space c) s of
        [] \<Rightarrow> [s]
      | c # rest \<Rightarrow> takeWhile (\<lambda>c. \<not> is_space c) s # split_space_runs (dropWhile is_space rest))"
  by pat_completeness auto
termination
proof (relation "measure length", simp)
  fix s :: jsstring and c rest
  assume d: "dropWhile (\<lambda>c. \<not> is_space c) s = c # rest"
  have "length (dropWhile is_space rest) \<le> length rest"
    by (rule length_dropWhile_le)
  also have "\<dots> < length (dropWhile (\<lambda>c. \<not> is_space c) s)"
    by (simp add: d)
  also have "\<dots> \<le> length s"
    by (rule length_dropWhile_le)
  finally show "(dropWhile is_space rest, s) \<in> measure length"
    by simp
qed

section \<open>Status labels (lib/config.ts, lib/types.ts)\<close>

text \<open>
  A value read out of a plain object by a computed key: either a string, or, when the
  key is none of the object's own keys but names a member of \<open>Object.prototype\<close>, that
  inherited member (a function or an object, never a string).
\<close>

datatype jsvalue = JString jsstring | JInherited jsstring

definition object_prototype_keys :: "jsstring list" where
  "object_prototype_keys = map js
     [''constructor'', ''__proto__'', ''hasOwnProperty'', ''isPrototypeOf'',
      ''propertyIsEnumerable'', ''toLocaleString'', ''toString'', ''valueOf'',
      ''__defineGetter__'', ''__defineSetter__'', ''__lookupGetter__'', ''__lookupSetter__'']"

text \<open>\<open>obj[key]\<close> on an object literal with the given own properties; \<open>None\<close> is \<open>undefined\<close>.\<close>

definition get_property :: "(jsstring \<times> jsstring) list \<Rightarrow> jsstring \<Rightarrow> jsvalue option" where
  "get_property own k =
     (case map_of own k of
        Some v \<Rightarrow> Some (JString v)
      | None \<Rightarrow> if k \<in> set object_prototype_keys then Some (JInherited k) else None)"

text \<open>\<open>v || d\<close>: \<open>undefined\<close> and the empty string are falsy, everything else is truthy.\<close>

definition or_else :: "jsvalue option \<Rightarrow> jsvalue \<Rightarrow> jsvalue" where
  "or_else v d = (case v of None \<Rightarrow> d | Some (JString s) \<Rightarrow> (if s = [] then d else JString s)
                  | Some (JInherited k) \<Rightarrow> JInherited k)"

text \<open>
  The code units of the character class \<open>[\<dots>]\<close> of \<open>normalizeStatus\<close>. The regular
  expression has no \<open>u\<close> flag, so the class is a set of code units: U+2705, the high
  surrogate U+D83D shared by the other four emoji, and their low surrogates U+DFE1,
  U+DD1C, U+DD34, U+DFE2.
\<close>

definition emoji_units :: "nat list" where
  "emoji_units = [9989, 55357, 57313, 55357, 56604, 55357, 56628, 55357, 57314]"

definition STATUS_DISPLAY :: "(jsstring \<times> jsstring) list" where
  "STATUS_DISPLAY =
    [(js ''complete'', [9989] @ js '' Complete''),
     (js ''in_progress'', [55357, 57313] @ js '' In Progress''),
     (js ''logged'', [55357, 57313] @ js '' Logged''),
     (js ''queued'', [55357, 56604] @ js '' Queued''),
     (js ''blocked'', [55357, 56628] @ js '' Blocked''),
     (js ''observed'', [55357, 57314] @ js '' Observed'')]"

definition STATUS_OPTIONS :: "jsstring list" where
  "STATUS_OPTIONS = map fst STATUS_DISPLAY"

definition mappings :: "(jsstring \<times> jsstring) list" where
  "mappings =
    [(js ''done'', js ''complete''),
     (js ''partial'', js ''in_progress''),
     (js ''urgent'', js ''blocked''),
     (js ''inprogress'', js ''in_progress'')]"

definition cleaned :: "jsstring \<Rightarrow> jsstring" where
  "cleaned input =
     replace_space_runs (js ''_'') (trim (filter (\<lambda>c. c \<notin> set emoji_units) (toLowerCase input)))"

definition normalizeStatus :: "jsstring \<Rightarrow> jsvalue" where
  "normalizeStatus input = or_else (get_property mappings (cleaned input)) (JString (cleaned input))"

definition getStatusDisplay :: "jsstring option \<Rightarrow> jsvalue" where
  "getStatusDisplay status =
     (case status of
        None \<Rightarrow> JString []
      | Some s \<Rightarrow> if s = [] then JString [] else or_else (get_property STATUS_DISPLAY s) (JString s))"

section \<open>Text and numbers as the databases keep them\<close>

text \<open>
  The drivers (\<open>better-sqlite3\<close>, \<open>@vercel/postgres\<close>) hand a string to the database in
  UTF-8 and decode what they read back. A surrogate that is not part of a pair (a high
  one, U+D800 to U+DBFF, followed by a low one, U+DC00 to U+DFFF) has no UTF-8 form and
  is encoded as U+FFFD. \<open>scrub s\<close> is the string that the database receives for \<open>s\<close>,
  and hence the string that is read back.
\<close>

definition is_high :: "nat \<Rightarrow> bool" where
  "is_high c = (55296 \<le> c \<and> c \<le> 56319)"

definition is_low :: "nat \<Rightarrow> bool" where
  "is_low c = (56320 \<le> c \<and> c \<le> 57343)"

fun scrub :: "jsstring \<Rightarrow> jsstring" where
  "scrub [] = []"
| "scrub [c] = (if is_high c \<or> is_low c then [65533] else [c])"
| "scrub (c # d # cs) =
     (if is_high c \<and> is_low d then c # d # scrub cs
      else if is_high c \<or> is_low c then 65533 # scrub (d # cs)
      else c # scrub (d # cs))"

text \<open>
  The characters (code points) of a string: a surrogate pair is one character.
  SQLite compares text byte by byte in UTF-8 (collation \<open>BINARY\<close>), which is the
  lexicographic order of the code points.
\<close>

fun code_points :: "jsstring \<Rightarrow> nat list" where
  "code_points [] = []"
| "code_points [c] = [c]"
| "code_points (c # d # cs) =
     (if is_high c \<and> is_low d then (65536 + (c - 55296) * 1024 + (d - 56320)) # code_points cs
      else c # code_points (d # cs))"

definition binary_le :: "jsstring \<Rightarrow> jsstring \<Rightarrow> bool" where
  "binary_le a b = (code_points a \<le> code_points b)"

text \<open>
  The integer types: \<open>INTEGER\<close> and \<open>SERIAL\<close> of PostgreSQL are 32 bits wide, its
  \<open>bigint\<close> and the \<open>INTEGER\<close> of SQLite 64 bits; a JavaScript number holds an integer
  exactly up to \<open>2^53 - 1\<close>.
\<close>

definition in_int4 :: "int \<Rightarrow> bool" where
  "in_int4 i = (- 2147483648 \<le> i \<and> i \<le> 2147483647)"

definition in_int8 :: "int \<Rightarrow> bool" where
  "in_int8 i = (- 9223372036854775808 \<le> i \<and> i \<le> 9223372036854775807)"

definition max_safe_integer :: int where
  "max_safe_integer = 9007199254740991"

section \<open>Entries and inputs (lib/types.ts)\<close>

datatype document_type = addendum | dev_log

text \<open>
  The columns \<open>created_at\<close> and \<open>updated_at\<close>: SQLite keeps the text that
  \<open>datetime('now')\<close> gives, PostgreSQL a \<open>TIMESTAMP\<close>, which the driver returns as a date
  object. The reading of the database clock is kept abstract as a number.
\<close>

datatype timestamp = Text_time nat | Date_time nat

text \<open>
  A row of the \<open>entries\<close> table. The column \<open>id\<close> is \<open>entry_id\<close> here. A nullable text
  column is an option, \<open>None\<close> being \<open>NULL\<close>.
\<close>

record Entry =
  entry_id :: int
  project :: jsstring
  document_type :: document_type
  entry_date :: jsstring
  entry_number :: int
  title :: jsstring
  entry_type :: "jsstring option"
  status :: "jsstring option"
  summary :: "jsstring option"
  details :: "jsstring option"
  narrative_signal :: "jsstring option"
  next_steps :: "jsstring option"
  is_deleted :: int
  created_at :: timestamp
  updated_at :: timestamp

text \<open>An optional property is an option, \<open>None\<close> being \<open>undefined\<close>.\<close>

record CreateEntryInput =
  new_project :: jsstring
  new_document_type :: document_type
  new_entry_date :: jsstring
  new_title :: jsstring
  new_entry_type :: "jsstring option"
  new_status :: "jsstring option"
  new_summary :: "jsstring option"
  new_details :: "jsstring option"
  new_narrative_signal :: "jsstring option"
  new_next_steps :: "jsstring option"

record UpdateEntryInput =
  upd_entry_date :: "jsstring option"
  upd_title :: "jsstring option"
  upd_entry_type :: "jsstring option"
  upd_status :: "jsstring option"
  upd_summary :: "jsstring option"
  upd_details :: "jsstring option"
  upd_narrative_signal :: "jsstring option"
  upd_next_steps :: "jsstring option"

text \<open>
  The filter object of \<open>listEntries\<close>. For the two numbers \<open>None\<close> stands for
  \<open>undefined\<close> and for \<open>NaN\<close>, which \<open>||\<close> treats alike; the numbers are integers, as
  \<open>parseInt\<close> gives them.
\<close>

record filters =
  f_project :: "jsstring option"
  f_document_type :: "document_type option"
  f_after :: "jsstring option"
  f_before :: "jsstring option"
  f_q :: "jsstring option"
  f_limit :: "int option"
  f_offset :: "int option"
  f_includeDeleted :: "bool option"

record list_result =
  entries :: "Entry list"
  total :: nat

text \<open>\<open>s || null\<close> on an optional string: \<open>undefined\<close> and the empty string give \<open>null\<close>.\<close>

definition or_null :: "jsstring option \<Rightarrow> jsstring option" where
  "or_null v = (case v of None \<Rightarrow> None | Some s \<Rightarrow> if s = [] then None else Some s)"

text \<open>\<open>n || d\<close> on an optional number: \<open>undefined\<close>, \<open>NaN\<close>, \<open>null\<close> and \<open>0\<close> give \<open>d\<close>.\<close>

definition number_or :: "int option \<Rightarrow> int \<Rightarrow> int" where
  "number_or v d = (case v of None \<Rightarrow> d | Some n \<Rightarrow> if n = 0 then d else n)"

section \<open>What the deployment fixes\<close>

text \<open>
  Three things that decide results are fixed outside the repository and are parameters
  here. \<open>ORDER BY\<close> leaves the order of rows with equal keys to the engine, and the
  engine's choice may depend on the statement and on how the table is stored:
  \<open>order_by env f\<close> takes the rows that satisfy the \<open>WHERE\<close> clause of the filter \<open>f\<close>,
  in table order, to those rows in the order in which the engine returns them. The
  locale of the PostgreSQL database decides how \<open>ILIKE\<close> folds case (it matches after
  \<open>pg_lower\<close> has been applied to pattern and value) and how text is compared by
  \<open>\<le>\<close>, \<open>\<ge>\<close> and \<open>ORDER BY\<close> (\<open>pg_le\<close>).
\<close>

record environment =
  order_by :: "filters \<Rightarrow> Entry list \<Rightarrow> Entry list"
  pg_lower :: "jsstring \<Rightarrow> jsstring"
  pg_le :: "jsstring \<Rightarrow> jsstring \<Rightarrow> bool"

section \<open>The database\<close>

text \<open>
  The \<open>entries\<close> table: its rows in the order they were inserted, and the last value
  handed out for \<open>id\<close> (\<open>sqlite_sequence\<close> for \<open>AUTOINCREMENT\<close>, the sequence of the
  \<open>SERIAL\<close> column). A database is the table or, before the schema exists, nothing.
  The store also holds the module variable \<open>sqliteDb\<close> (whether the connection is open),
  which only the SQLite functions use.
\<close>

record table =
  rows :: "Entry list"
  seq :: int

record store =
  sqliteDb :: bool
  entries_table :: "table option"

text \<open>
  The exceptions of the engines: no such table; a uniqueness constraint broken; a text
  parameter holding U+0000, which PostgreSQL rejects; an integer parameter outside the
  type of its place (PostgreSQL); the \<open>SERIAL\<close> sequence at its end (PostgreSQL); no
  row id left (SQLite); a \<open>LIMIT\<close> or \<open>OFFSET\<close> that is no 64-bit integer (SQLite); a
  negative \<open>LIMIT\<close> or \<open>OFFSET\<close> (PostgreSQL).
\<close>

datatype db_error =
    NoSuchTable | UniqueViolation | InvalidText | OutOfRange | SequenceLimit | DatabaseFull
  | DatatypeMismatch | NegativeLimit | NegativeOffset

type_synonym 'a db = "store \<Rightarrow> (db_error + 'a) \<times> store"

definition return_db :: "'a \<Rightarrow> 'a db" where
  "return_db a st = (Inr a, st)"

text \<open>Sequencing: an error of the first step (a thrown exception) ends the function.\<close>

definition bind_db :: "'a db \<Rightarrow> ('a \<Rightarrow> 'b db) \<Rightarrow> 'b db" where
  "bind_db m k st = (case m st of (Inl err, st') \<Rightarrow> (Inl err, st') | (Inr a, st') \<Rightarrow> k a st')"

text \<open>A statement that reads the table; it fails when the table does not exist.\<close>

definition query :: "(table \<Rightarrow> 'a) \<Rightarrow> 'a db" where
  "query g st = (case entries_table st of None \<Rightarrow> (Inl NoSuchTable, st) | Some t \<Rightarrow> (Inr (g t), st))"

text \<open>A statement that reads the table and may be rejected by the engine.\<close>

definition query_checked :: "(table \<Rightarrow> db_error + 'a) \<Rightarrow> 'a db" where
  "query_checked g st =
     (case entries_table st of None \<Rightarrow> (Inl NoSuchTable, st) | Some t \<Rightarrow> (g t, st))"

text \<open>A statement that may change the table or fail on a constraint.\<close>

definition exec :: "(table \<Rightarrow> (db_error + 'a) \<times> table) \<Rightarrow> 'a db" where
  "exec g st =
     (case entries_table st of
        None \<Rightarrow> (Inl NoSuchTable, st)
      | Some t \<Rightarrow> (case g t of (r, t') \<Rightarrow> (r, st\<lparr>entries_table := Some t'\<rparr>)))"

text \<open>
  The parameters of a PostgreSQL statement, in the order of their places. The server
  reads each one into the type of its place before the statement runs: a text holding
  U+0000 and an integer outside the type are rejected, the first such parameter
  deciding the error; the statement has then not run. SQLite takes every text and
  every number.
\<close>

datatype param = Text jsstring | Int4 int | Int8 int

fun param_error :: "param \<Rightarrow> db_error option" where
  "param_error (Text s) = (if 0 \<in> set s then Some InvalidText else None)"
| "param_error (Int4 i) = (if in_int4 i then None else Some OutOfRange)"
| "param_error (Int8 i) = (if in_int8 i then None else Some OutOfRange)"

fun bind_error :: "param list \<Rightarrow> db_error option" where
  "bind_error [] = None"
| "bind_error (p # ps) = (case param_error p of Some err \<Rightarrow> Some err | None \<Rightarrow> bind_error ps)"

definition with_params :: "param list \<Rightarrow> 'a db \<Rightarrow> 'a db" where
  "with_params ps m st =
     (case entries_table st of
        None \<Rightarrow> (Inl NoSuchTable, st)
      | Some t \<Rightarrow> (case bind_error ps of Some err \<Rightarrow> (Inl err, st) | None \<Rightarrow> m st))"

text \<open>The parameters for nullable text values: \<open>null\<close> is always accepted.\<close>

definition text_params :: "jsstring option list \<Rightarrow> param list" where
  "text_params vs = concat (map (\<lambda>v. case v of None \<Rightarrow> [] | Some s \<Rightarrow> [Text s]) vs)"

definition empty_table :: table where
  "empty_table = \<lparr>rows = [], seq = 0\<rparr>"

text \<open>\<open>CREATE TABLE IF NOT EXISTS entries\<close> (the indexes do not change any result).\<close>

definition create_table_if_not_exists :: "store \<Rightarrow> store" where
  "create_table_if_not_exists st =
     (case entries_table st of None \<Rightarrow> st\<lparr>entries_table := Some empty_table\<rparr> | Some t \<Rightarrow> st)"

text \<open>The columns of \<open>UNIQUE(project, document_type, entry_date, entry_number)\<close>.\<close>

definition unique_key :: "Entry \<Rightarrow> jsstring \<times> document_type \<times> jsstring \<times> int" where
  "unique_key e = (project e, document_type e, entry_date e, entry_number e)"

text \<open>\<open>SELECT MAX(entry_number)\<close> over the selected rows: \<open>NULL\<close> when there is none.\<close>

fun max_entry_number :: "Entry list \<Rightarrow> int option" where
  "max_entry_number [] = None"
| "max_entry_number (e # es) =
     (case max_entry_number es of
        None \<Rightarrow> Some (entry_number e)
      | Some m \<Rightarrow> Some (max (entry_number e) m))"

text \<open>\<open>SELECT * FROM entries WHERE id = ?\<close>, first row.\<close>

definition select_by_id :: "int \<Rightarrow> table \<Rightarrow> Entry option" where
  "select_by_id i t = find (\<lambda>e. entry_id e = i) (rows t)"

text \<open>
  \<open>UPDATE entries SET \<dots> WHERE id = ?\<close>: the assignments are applied to every row with
  that id; the statement fails, changing nothing, when the result breaks the uniqueness
  constraint; otherwise it reports the number of rows it matched.
\<close>

definition update_by_id :: "int \<Rightarrow> (Entry \<Rightarrow> Entry) \<Rightarrow> table \<Rightarrow> (db_error + nat) \<times> table" where
  "update_by_id i upd t =
     (let rows' = map (\<lambda>e. if entry_id e = i then upd e else e) (rows t)
      in if distinct (map unique_key rows')
         then (Inr (length (filter (\<lambda>e. entry_id e = i) (rows t))), t\<lparr>rows := rows'\<rparr>)
         else (Inl UniqueViolation, t))"

text \<open>\<open>DELETE FROM entries WHERE id = ?\<close>, reporting the number of rows removed.\<close>

definition delete_by_id :: "int \<Rightarrow> table \<Rightarrow> (db_error + nat) \<times> table" where
  "delete_by_id i t =
     (Inr (length (filter (\<lambda>e. entry_id e = i) (rows t))),
      t\<lparr>rows := filter (\<lambda>e. entry_id e \<noteq> i) (rows t)\<rparr>)"

text \<open>
  \<open>ORDER BY entry_date DESC, entry_number DESC\<close> under the text order \<open>le\<close>.
  \<open>ordered_before le a b\<close>: row \<open>a\<close> may stand before row \<open>b\<close>, that is, the date of \<open>b\<close>
  is not after that of \<open>a\<close> and, when the dates tie, neither is its number.
\<close>

definition ordered_before :: "(jsstring \<Rightarrow> jsstring \<Rightarrow> bool) \<Rightarrow> Entry \<Rightarrow> Entry \<Rightarrow> bool" where
  "ordered_before le a b =
     (le (entry_date b) (entry_date a) \<and>
      (le (entry_date a) (entry_date b) \<longrightarrow> entry_number b \<le> entry_number a))"

text \<open>
  \<open>LIKE\<close> without folding of case: \<open>%\<close> (37) matches any run of characters, \<open>_\<close> (95)
  any one character, every other pattern character itself. A character may be two code
  units; the strings matched here are as the database holds them, so a low surrogate is
  always the second unit of a character, where no character starts: \<open>_\<close> does not match
  there, and takes both units of a pair. With \<open>esc\<close> (PostgreSQL, whose default escape
  character is the backslash, 92) a backslash makes the next pattern character match
  itself; a pattern that ends in a lone backslash matches nothing (PostgreSQL rejects
  it when the match gets there; \<open>listEntries\<close> builds no such pattern, as each of its
  patterns ends in \<open>%\<close>). SQLite has no default escape character.
\<close>

fun like_match :: "bool \<Rightarrow> jsstring \<Rightarrow> jsstring \<Rightarrow> bool" where
  "like_match esc [] [] = True"
| "like_match esc [] (c # cs) = False"
| "like_match esc (p # ps) [] = (p = 37 \<and> like_match esc ps [])"
| "like_match esc (p # ps) (c # cs) =
     (if p = 37 then like_match esc ps (c # cs) \<or> like_match esc (p # ps) cs
      else if p = 95 then
        (if is_high c then (case cs of [] \<Rightarrow> False | d # ds \<Rightarrow> is_low d \<and> like_match esc ps ds)
         else \<not> is_low c \<and> like_match esc ps cs)
      else if esc \<and> p = 92 then
        (case ps of [] \<Rightarrow> False | r # rs \<Rightarrow> r = c \<and> like_match esc rs cs)
      else p = c \<and> like_match esc ps cs)"

text \<open>
  \<open>LIKE\<close> of SQLite: pattern and value are read as C strings, that is, up to their
  first U+0000; the letters \<open>A\<close> to \<open>Z\<close> match their lower-case forms and no other
  character is folded.
\<close>

definition until_nul :: "jsstring \<Rightarrow> jsstring" where
  "until_nul s = takeWhile (\<lambda>c. c \<noteq> 0) s"

definition sqlite_like :: "jsstring \<Rightarrow> jsstring \<Rightarrow> bool" where
  "sqlite_like pat s =
     like_match False (map lower_unit (until_nul pat)) (map lower_unit (until_nul s))"

text \<open>
  \<open>ILIKE\<close> of PostgreSQL in a UTF-8 database: pattern and value are both put in lower
  case by the locale, then matched as by \<open>LIKE\<close>.
\<close>

definition postgres_ilike :: "(jsstring \<Rightarrow> jsstring) \<Rightarrow> jsstring \<Rightarrow> jsstring \<Rightarrow> bool" where
  "postgres_ilike lower pat s = like_match True (lower pat) (lower s)"

text \<open>A comparison with \<open>NULL\<close> is not true.\<close>

definition on_column :: "(jsstring \<Rightarrow> bool) \<Rightarrow> jsstring option \<Rightarrow> bool" where
  "on_column test v = (case v of None \<Rightarrow> False | Some s \<Rightarrow> test s)"

text \<open>
  \<open>LIMIT l OFFSET o\<close>. SQLite rejects a value that is no 64-bit integer, reads a negative
  \<open>LIMIT\<close> as no limit and a negative \<open>OFFSET\<close> as zero. PostgreSQL takes both as \<open>bigint\<close>
  parameters and rejects a negative \<open>OFFSET\<close>, then a negative \<open>LIMIT\<close>.
\<close>

definition sqlite_limit_offset :: "int \<Rightarrow> int \<Rightarrow> 'a list \<Rightarrow> db_error + 'a list" where
  "sqlite_limit_offset l off xs =
     (if \<not> in_int8 l \<or> \<not> in_int8 off then Inl DatatypeMismatch
      else let ys = drop (nat off) xs in Inr (if l < 0 then ys else take (nat l) ys))"

definition postgres_limit_offset :: "int \<Rightarrow> int \<Rightarrow> 'a list \<Rightarrow> db_error + 'a list" where
  "postgres_limit_offset l off xs =
     (if off < 0 then Inl NegativeOffset
      else if l < 0 then Inl NegativeLimit
      else Inr (take (nat l) (drop (nat off) xs)))"

text \<open>
  \<open>INSERT\<close> with the id left to the engine. SQLite (\<open>AUTOINCREMENT\<close>) takes one more
  than the largest id the table holds or ever held, fails when that is no 64-bit
  integer any more, and reports the id as \<open>lastInsertRowid\<close>. PostgreSQL (\<open>SERIAL\<close>)
  takes the next value of the sequence, which ends at \<open>2^31 - 1\<close> and stays consumed
  when the statement fails, and \<open>RETURNING *\<close> gives the stored row. Both fail on a row
  that breaks a uniqueness constraint.
\<close>

definition sqlite_insert :: "(int \<Rightarrow> Entry) \<Rightarrow> table \<Rightarrow> (db_error + int) \<times> table" where
  "sqlite_insert mk t =
     (let new_id = fold max (map entry_id (rows t)) (seq t) + 1; row = mk new_id
      in if \<not> in_int8 new_id then (Inl DatabaseFull, t)
         else if unique_key row \<in> set (map unique_key (rows t)) then (Inl UniqueViolation, t)
         else (Inr new_id, t\<lparr>rows := rows t @ [row], seq := new_id\<rparr>))"

definition postgres_insert :: "(int \<Rightarrow> Entry) \<Rightarrow> table \<Rightarrow> (db_error + Entry) \<times> table" where
  "postgres_insert mk t =
     (let new_id = seq t + 1; row = mk new_id; t1 = t\<lparr>seq := new_id\<rparr>
      in if \<not> in_int4 new_id then (Inl SequenceLimit, t)
         else if new_id \<in> set (map entry_id (rows t)) \<or>
                 unique_key row \<in> set (map unique_key (rows t))
         then (Inl UniqueViolation, t1)
         else (Inr row, t1\<lparr>rows := rows t @ [row]\<rparr>))"

text \<open>
  The row that \<open>createEntry\<close> inserts, every text as the database receives it; the
  defaults of the schema fill the rest, \<open>stamp\<close> being the time stamp that the default
  of the engine gives.
\<close>

definition new_row :: "CreateEntryInput \<Rightarrow> int \<Rightarrow> timestamp \<Rightarrow> int \<Rightarrow> Entry" where
  "new_row input entryNumber stamp i =
     \<lparr>entry_id = i, project = scrub (new_project input),
      document_type = new_document_type input,
      entry_date = scrub (new_entry_date input), entry_number = entryNumber,
      title = scrub (new_title input),
      entry_type = map_option scrub (or_null (new_entry_type input)),
      status = map_option scrub (or_null (new_status input)),
      summary = map_option scrub (or_null (new_summary input)),
      details = map_option scrub (or_null (new_details input)),
      narrative_signal = map_option scrub (or_null (new_narrative_signal input)),
      next_steps = map_option scrub (or_null (new_next_steps input)),
      is_deleted = 0, created_at = stamp, updated_at = stamp\<rparr>"

text \<open>The rows of one (project, document_type, entry_date) group.\<close>

definition in_group :: "jsstring \<Rightarrow> document_type \<Rightarrow> jsstring \<Rightarrow> Entry \<Rightarrow> bool" where
  "in_group p dt d e = (project e = p \<and> document_type e = dt \<and> entry_date e = d)"

section \<open>The query builder of listEntries\<close>

text \<open>
  \<open>conditions\<close> is the list of pushed conditions, each with its parameters bound; the
  \<open>WHERE\<close> clause is their conjunction. A string property is tested for truthiness, so
  the empty string adds no condition. \<open>le\<close> is the text order of the engine and \<open>like\<close>
  its case-insensitive \<open>LIKE\<close>.
\<close>

definition if_truthy :: "jsstring option \<Rightarrow> (jsstring \<Rightarrow> 'a list) \<Rightarrow> 'a list" where
  "if_truthy v g = (case v of None \<Rightarrow> [] | Some s \<Rightarrow> if s = [] then [] else g s)"

definition search_terms :: "jsstring \<Rightarrow> jsstring list" where
  "search_terms q = filter (\<lambda>t. length t > 0) (split_space_runs (trim q))"

definition term_condition :: "(jsstring \<Rightarrow> jsstring \<Rightarrow> bool) \<Rightarrow> jsstring \<Rightarrow> Entry \<Rightarrow> bool" where
  "term_condition like t e =
     (let likeTerm = scrub ([37] @ t @ [37])
      in on_column (like likeTerm) (Some (title e)) \<or> on_column (like likeTerm) (summary e) \<or>
         on_column (like likeTerm) (details e) \<or> on_column (like likeTerm) (next_steps e))"

definition build_conditions ::
  "(jsstring \<Rightarrow> jsstring \<Rightarrow> bool) \<Rightarrow> (jsstring \<Rightarrow> jsstring \<Rightarrow> bool) \<Rightarrow> filters \<Rightarrow> (Entry \<Rightarrow> bool) list" where
  "build_conditions le like f =
     (if f_includeDeleted f = Some True then [] else [\<lambda>e. is_deleted e = 0]) @
     if_truthy (f_project f) (\<lambda>p. [\<lambda>e. project e = scrub p]) @
     (case f_document_type f of None \<Rightarrow> [] | Some dt \<Rightarrow> [\<lambda>e. document_type e = dt]) @
     if_truthy (f_after f) (\<lambda>a. [\<lambda>e. le (scrub a) (entry_date e)]) @
     if_truthy (f_before f) (\<lambda>b. [\<lambda>e. le (entry_date e) (scrub b)]) @
     if_truthy (f_q f) (\<lambda>q. map (term_condition like) (search_terms q))"

text \<open>SQLite: \<open>LIKE ? COLLATE NOCASE\<close> and the order \<open>BINARY\<close>.\<close>

definition sqlite_conditions :: "filters \<Rightarrow> (Entry \<Rightarrow> bool) list" where
  "sqlite_conditions f = build_conditions binary_le sqlite_like f"

text \<open>PostgreSQL: \<open>ILIKE\<close> and the order of the locale.\<close>

definition postgres_conditions :: "environment \<Rightarrow> filters \<Rightarrow> (Entry \<Rightarrow> bool) list" where
  "postgres_conditions env f = build_conditions (pg_le env) (postgres_ilike (pg_lower env)) f"

text \<open>
  The text parameters that \<open>postgresListEntries\<close> pushes (the document type is one of
  two fixed words).
\<close>

definition postgres_params :: "filters \<Rightarrow> param list" where
  "postgres_params f =
     if_truthy (f_project f) (\<lambda>p. [Text p]) @
     if_truthy (f_after f) (\<lambda>a. [Text a]) @
     if_truthy (f_before f) (\<lambda>b. [Text b]) @
     if_truthy (f_q f) (\<lambda>q. map (\<lambda>t. Text ([37] @ t @ [37])) (search_terms q))"

definition where_clause :: "(Entry \<Rightarrow> bool) list \<Rightarrow> Entry \<Rightarrow> bool" where
  "where_clause conditions e = list_all (\<lambda>c. c e) conditions"

section \<open>SQLite implementation\<close>

definition initSqliteSchema :: "unit db" where
  "initSqliteSchema st = (Inr (), create_table_if_not_exists st)"

definition getSqliteDb :: "unit db" where
  "getSqliteDb st =
     (if \<not> sqliteDb st then initSqliteSchema (st\<lparr>sqliteDb := True\<rparr>) else (Inr (), st))"

definition sqliteListEntries :: "environment \<Rightarrow> filters \<Rightarrow> list_result db" where
  "sqliteListEntries env f =
     bind_db getSqliteDb (\<lambda>_.
       let conditions = sqlite_conditions f;
           limit = min (number_or (f_limit f) 50) 200;
           offset = number_or (f_offset f) 0
       in bind_db (query (\<lambda>t. length (filter (where_clause conditions) (rows t)))) (\<lambda>count.
          bind_db (query_checked (\<lambda>t. sqlite_limit_offset limit offset
                     (order_by env f (filter (where_clause conditions) (rows t))))) (\<lambda>es.
          return_db \<lparr>entries = es, total = count\<rparr>)))"

definition sqliteGetEntry :: "int \<Rightarrow> Entry option db" where
  "sqliteGetEntry i = bind_db getSqliteDb (\<lambda>_. query (select_by_id i))"

definition sqliteCreateEntry :: "CreateEntryInput \<Rightarrow> nat \<Rightarrow> Entry option db" where
  "sqliteCreateEntry input now =
     bind_db getSqliteDb (\<lambda>_.
     bind_db (query (\<lambda>t. max_entry_number
        (filter (in_group (scrub (new_project input)) (new_document_type input)
                   (scrub (new_entry_date input))) (rows t)))) (\<lambda>max_num.
       let entryNumber = number_or max_num 0 + 1
       in bind_db (exec (sqlite_insert (new_row input entryNumber (Text_time now))))
            (\<lambda>lastInsertRowid. sqliteGetEntry lastInsertRowid)))"

text \<open>
  The assignments of \<open>sqliteUpdateEntry\<close> after \<open>updated_at\<close> and the date: one for each
  property of the input that is not \<open>undefined\<close>.
\<close>

definition field_updates :: "UpdateEntryInput \<Rightarrow> (Entry \<Rightarrow> Entry) list" where
  "field_updates input =
     (case upd_title input of None \<Rightarrow> [] | Some v \<Rightarrow> [\<lambda>e. e\<lparr>title := scrub v\<rparr>]) @
     (case upd_entry_type input of None \<Rightarrow> []
        | Some v \<Rightarrow> [\<lambda>e. e\<lparr>entry_type := Some (scrub v)\<rparr>]) @
     (case upd_status input of None \<Rightarrow> [] | Some v \<Rightarrow> [\<lambda>e. e\<lparr>status := Some (scrub v)\<rparr>]) @
     (case upd_summary input of None \<Rightarrow> [] | Some v \<Rightarrow> [\<lambda>e. e\<lparr>summary := Some (scrub v)\<rparr>]) @
     (case upd_details input of None \<Rightarrow> [] | Some v \<Rightarrow> [\<lambda>e. e\<lparr>details := Some (scrub v)\<rparr>]) @
     (case upd_narrative_signal input of None \<Rightarrow> []
        | Some v \<Rightarrow> [\<lambda>e. e\<lparr>narrative_signal := Some (scrub v)\<rparr>]) @
     (case upd_next_steps input of None \<Rightarrow> []
        | Some v \<Rightarrow> [\<lambda>e. e\<lparr>next_steps := Some (scrub v)\<rparr>])"

text \<open>
  \<open>input.entry_date !== undefined && input.entry_date !== existing.entry_date\<close>, a
  comparison of the two JavaScript strings.
\<close>

definition changes_date :: "UpdateEntryInput \<Rightarrow> Entry \<Rightarrow> bool" where
  "changes_date input existing =
     (upd_entry_date input \<noteq> None \<and> upd_entry_date input \<noteq> Some (entry_date existing))"

definition sqliteUpdateEntry :: "int \<Rightarrow> UpdateEntryInput \<Rightarrow> nat \<Rightarrow> Entry option db" where
  "sqliteUpdateEntry i input now =
     bind_db getSqliteDb (\<lambda>_.
     bind_db (sqliteGetEntry i) (\<lambda>found.
       case found of
         None \<Rightarrow> return_db None
       | Some existing \<Rightarrow>
           bind_db
             (if changes_date input existing then
                bind_db (query (\<lambda>t. max_entry_number
                   (filter (\<lambda>e. in_group (scrub (project existing)) (document_type existing)
                                   (scrub (the (upd_entry_date input))) e \<and> entry_id e \<noteq> i)
                      (rows t))))
                  (\<lambda>max_num.
                     let newEntryNumber = number_or max_num 0 + 1
                     in return_db [\<lambda>e. e\<lparr>entry_date := scrub (the (upd_entry_date input))\<rparr>,
                                   \<lambda>e. e\<lparr>entry_number := newEntryNumber\<rparr>])
              else return_db [])
             (\<lambda>date_updates.
                let updates = [\<lambda>e. e\<lparr>updated_at := Text_time now\<rparr>] @ date_updates @
                              field_updates input
                in bind_db (exec (update_by_id i (\<lambda>e. fold (\<lambda>u. u) updates e))) (\<lambda>_.
                   sqliteGetEntry i))))"

definition sqliteDeleteEntry :: "int \<Rightarrow> bool \<Rightarrow> nat \<Rightarrow> bool db" where
  "sqliteDeleteEntry i hard now =
     bind_db getSqliteDb (\<lambda>_.
       if hard then bind_db (exec (delete_by_id i)) (\<lambda>changes. return_db (changes > 0))
       else bind_db (exec (update_by_id i (\<lambda>e. e\<lparr>is_deleted := 1, updated_at := Text_time now\<rparr>)))
              (\<lambda>changes. return_db (changes > 0)))"

section \<open>Postgres implementation\<close>

definition postgresInitSchema :: "unit db" where
  "postgresInitSchema st = (Inr (), create_table_if_not_exists st)"

definition postgresListEntries :: "environment \<Rightarrow> filters \<Rightarrow> list_result db" where
  "postgresListEntries env f =
     (let conditions = postgres_conditions env f;
          params = postgres_params f;
          limit = min (number_or (f_limit f) 50) 200;
          offset = number_or (f_offset f) 0
      in bind_db (with_params params
                    (query (\<lambda>t. length (filter (where_clause conditions) (rows t))))) (\<lambda>count.
         bind_db (with_params (params @ [Int8 limit, Int8 offset])
                    (query_checked (\<lambda>t. postgres_limit_offset limit offset
                       (order_by env f (filter (where_clause conditions) (rows t)))))) (\<lambda>es.
         return_db \<lparr>entries = es, total = count\<rparr>)))"

definition postgresGetEntry :: "int \<Rightarrow> Entry option db" where
  "postgresGetEntry i = with_params [Int4 i] (query (select_by_id i))"

definition postgresCreateEntry :: "CreateEntryInput \<Rightarrow> nat \<Rightarrow> Entry option db" where
  "postgresCreateEntry input now =
     bind_db (with_params [Text (new_project input), Text (new_entry_date input)]
        (query (\<lambda>t. max_entry_number
           (filter (in_group (scrub (new_project input)) (new_document_type input)
                      (scrub (new_entry_date input))) (rows t))))) (\<lambda>max_num.
       let entryNumber = number_or max_num 0 + 1
       in bind_db (with_params
             ([Text (new_project input), Text (new_entry_date input), Int4 entryNumber,
               Text (new_title input)] @
              text_params [or_null (new_entry_type input), or_null (new_status input),
                or_null (new_summary input), or_null (new_details input),
                or_null (new_narrative_signal input), or_null (new_next_steps input)])
             (exec (postgres_insert (new_row input entryNumber (Date_time now))))) (\<lambda>row.
          return_db (Some row)))"

text \<open>
  \<open>input.x !== undefined ? input.x : existing.x\<close>, for a text column and for a nullable
  one.
\<close>

definition or_existing :: "jsstring option \<Rightarrow> jsstring \<Rightarrow> jsstring" where
  "or_existing v old = (case v of Some x \<Rightarrow> x | None \<Rightarrow> old)"

definition or_existing_null :: "jsstring option \<Rightarrow> jsstring option \<Rightarrow> jsstring option" where
  "or_existing_null v old = (case v of Some x \<Rightarrow> Some x | None \<Rightarrow> old)"

text \<open>
  The \<open>UPDATE\<close> statement of \<open>postgresUpdateEntry\<close>: its parameters in the order of
  their places, and its \<open>SET\<close> clause, which assigns every column anew.
\<close>

definition postgres_update_params ::
  "jsstring \<Rightarrow> int \<Rightarrow> UpdateEntryInput \<Rightarrow> Entry \<Rightarrow> int \<Rightarrow> param list" where
  "postgres_update_params newEntryDate newEntryNumber input existing i =
     [Text newEntryDate, Int4 newEntryNumber,
      Text (or_existing (upd_title input) (title existing))] @
     text_params
       [or_existing_null (upd_entry_type input) (entry_type existing),
        or_existing_null (upd_status input) (status existing),
        or_existing_null (upd_summary input) (summary existing),
        or_existing_null (upd_details input) (details existing),
        or_existing_null (upd_narrative_signal input) (narrative_signal existing),
        or_existing_null (upd_next_steps input) (next_steps existing)] @
     [Int4 i]"

definition postgres_update_set ::
  "jsstring \<Rightarrow> int \<Rightarrow> UpdateEntryInput \<Rightarrow> Entry \<Rightarrow> nat \<Rightarrow> Entry \<Rightarrow> Entry" where
  "postgres_update_set newEntryDate newEntryNumber input existing now e =
     e\<lparr>entry_date := scrub newEntryDate,
       entry_number := newEntryNumber,
       title := scrub (or_existing (upd_title input) (title existing)),
       entry_type := map_option scrub
         (or_existing_null (upd_entry_type input) (entry_type existing)),
       status := map_option scrub (or_existing_null (upd_status input) (status existing)),
       summary := map_option scrub (or_existing_null (upd_summary input) (summary existing)),
       details := map_option scrub (or_existing_null (upd_details input) (details existing)),
       narrative_signal := map_option scrub
         (or_existing_null (upd_narrative_signal input) (narrative_signal existing)),
       next_steps := map_option scrub
         (or_existing_null (upd_next_steps input) (next_steps existing)),
       updated_at := Date_time now\<rparr>"

text \<open>
  \<open>UPDATE \<dots> RETURNING *\<close> gives the updated row, \<open>rows[0] || null\<close>; the row is read
  here by its id after the statement.
\<close>

definition postgresUpdateEntry :: "int \<Rightarrow> UpdateEntryInput \<Rightarrow> nat \<Rightarrow> Entry option db" where
  "postgresUpdateEntry i input now =
     bind_db (postgresGetEntry i) (\<lambda>found.
       case found of
         None \<Rightarrow> return_db None
       | Some existing \<Rightarrow>
           bind_db
             (if changes_date input existing then
                bind_db (with_params
                   [Text (project existing), Text (the (upd_entry_date input)), Int4 i]
                   (query (\<lambda>t. max_entry_number
                      (filter (\<lambda>e. in_group (scrub (project existing)) (document_type existing)
                                      (scrub (the (upd_entry_date input))) e \<and> entry_id e \<noteq> i)
                         (rows t)))))
                  (\<lambda>max_num. return_db (number_or max_num 0 + 1, the (upd_entry_date input)))
              else return_db (entry_number existing, entry_date existing))
             (\<lambda>(newEntryNumber, newEntryDate).
                bind_db (with_params
                     (postgres_update_params newEntryDate newEntryNumber input existing i)
                     (exec (update_by_id i
                        (postgres_update_set newEntryDate newEntryNumber input existing now))))
                  (\<lambda>_. query (select_by_id i))))"

definition postgresDeleteEntry :: "int \<Rightarrow> bool \<Rightarrow> nat \<Rightarrow> bool db" where
  "postgresDeleteEntry i hard now =
     (if hard then bind_db (with_params [Int4 i] (exec (delete_by_id i)))
                     (\<lambda>rowCount. return_db (rowCount > 0))
      else bind_db (with_params [Int4 i]
                      (exec (update_by_id i (\<lambda>e. e\<lparr>is_deleted := 1, updated_at := Date_time now\<rparr>))))
             (\<lambda>rowCount. return_db (rowCount > 0)))"

section \<open>Unified API\<close>

text \<open>
  \<open>usePostgres\<close> is fixed when the module is loaded; \<open>now\<close> is the reading of the
  database clock that the statement stores.
\<close>

definition initSchema :: "bool \<Rightarrow> unit db" where
  "initSchema usePostgres =
     (if usePostgres then postgresInitSchema else getSqliteDb)"

definition listEntries :: "bool \<Rightarrow> environment \<Rightarrow> filters \<Rightarrow> list_result db" where
  "listEntries usePostgres env f =
     (if usePostgres then postgresListEntries env f else sqliteListEntries env f)"

definition getEntry :: "bool \<Rightarrow> int \<Rightarrow> Entry option db" where
  "getEntry usePostgres i =
     (if usePostgres then postgresGetEntry i else sqliteGetEntry i)"

definition createEntry :: "bool \<Rightarrow> CreateEntryInput \<Rightarrow> nat \<Rightarrow> Entry option db" where
  "createEntry usePostgres input now =
     (if usePostgres then postgresCreateEntry input now else sqliteCreateEntry input now)"

definition updateEntry :: "bool \<Rightarrow> int \<Rightarrow> UpdateEntryInput \<Rightarrow> nat \<Rightarrow> Entry option db" where
  "updateEntry usePostgres i input now =
     (if usePostgres then postgresUpdateEntry i input now else sqliteUpdateEntry i input now)"

definition deleteEntry :: "bool \<Rightarrow> int \<Rightarrow> bool \<Rightarrow> nat \<Rightarrow> bool db" where
  "deleteEntry usePostgres i hard now =
     (if usePostgres then postgresDeleteEntry i hard now else sqliteDeleteEntry i hard now)"

section \<open>Well-formed stores\<close>

text \<open>
  What a backend holds and returns. Text is as \<open>scrub\<close> leaves it, and in PostgreSQL it
  holds no U+0000; time stamps are of the kind of the backend. Ids and entry numbers are
  32-bit integers in PostgreSQL; for SQLite they are taken to be integers that a
  JavaScript number holds exactly (the arithmetic of \<open>createEntry\<close> and \<open>updateEntry\<close>
  is that of JavaScript numbers, modelled here by integers).
\<close>

definition text_ok :: "bool \<Rightarrow> jsstring \<Rightarrow> bool" where
  "text_ok usePostgres s = (scrub s = s \<and> (usePostgres \<longrightarrow> 0 \<notin> set s))"

definition max_number :: "bool \<Rightarrow> int" where
  "max_number usePostgres = (if usePostgres then 2147483647 else max_safe_integer)"

definition number_ok :: "bool \<Rightarrow> int \<Rightarrow> bool" where
  "number_ok usePostgres n = (- max_number usePostgres \<le> n \<and> n \<le> max_number usePostgres)"

text \<open>The time stamp that a backend stores at the clock reading \<open>now\<close>.\<close>

definition stamp :: "bool \<Rightarrow> nat \<Rightarrow> timestamp" where
  "stamp usePostgres now = (if usePostgres then Date_time now else Text_time now)"

definition stamp_ok :: "bool \<Rightarrow> timestamp \<Rightarrow> bool" where
  "stamp_ok usePostgres s = (case s of Text_time _ \<Rightarrow> \<not> usePostgres | Date_time _ \<Rightarrow> usePostgres)"

definition row_ok :: "bool \<Rightarrow> Entry \<Rightarrow> bool" where
  "row_ok usePostgres e =
     (text_ok usePostgres (project e) \<and> text_ok usePostgres (entry_date e) \<and>
      text_ok usePostgres (title e) \<and>
      list_all (\<lambda>v. case v of None \<Rightarrow> True | Some s \<Rightarrow> text_ok usePostgres s)
        [entry_type e, status e, summary e, details e, narrative_signal e, next_steps e] \<and>
      number_ok usePostgres (entry_id e) \<and> number_ok usePostgres (entry_number e) \<and>
      stamp_ok usePostgres (created_at e) \<and> stamp_ok usePostgres (updated_at e))"

text \<open>
  A table satisfies the constraints of the schema (primary key, uniqueness of the
  group key with the number) and its id counter is not behind the ids it holds.
  A store is ready for a backend when its table is such a table and holds rows of that
  backend; the SQLite backend is also ready when there is no table yet and the
  connection has not been opened, since opening the connection creates the table.
\<close>

definition table_ok :: "table \<Rightarrow> bool" where
  "table_ok t =
     (distinct (map entry_id (rows t)) \<and> distinct (map unique_key (rows t)) \<and>
      list_all (\<lambda>e. entry_id e \<le> seq t) (rows t) \<and> 0 \<le> seq t)"

definition ready :: "bool \<Rightarrow> store \<Rightarrow> bool" where
  "ready usePostgres st =
     (case entries_table st of
        None \<Rightarrow> \<not> usePostgres \<and> \<not> sqliteDb st
      | Some t \<Rightarrow> table_ok t \<and> list_all (row_ok usePostgres) (rows t))"

definition table_of :: "store \<Rightarrow> table" where
  "table_of st = (case entries_table st of None \<Rightarrow> empty_table | Some t \<Rightarrow> t)"

definition stored :: "store \<Rightarrow> Entry list" where
  "stored st = rows (table_of st)"

text \<open>
  Room for \<open>n\<close> more entries: the id counter and every entry number are at least \<open>n\<close>
  below the largest number of the backend.
\<close>

definition room :: "bool \<Rightarrow> nat \<Rightarrow> store \<Rightarrow> bool" where
  "room usePostgres n st =
     (seq (table_of st) + int n \<le> max_number usePostgres \<and>
      list_all (\<lambda>e. entry_number e + int n \<le> max_number usePostgres) (stored st))"

text \<open>The store after a call that left the table \<open>t\<close>.\<close>

definition store_after :: "bool \<Rightarrow> store \<Rightarrow> table \<Rightarrow> store" where
  "store_after usePostgres st t =
     st\<lparr>sqliteDb := (sqliteDb st \<or> \<not> usePostgres), entries_table := Some t\<rparr>"

text \<open>
  The number both \<open>createEntry\<close> and \<open>updateEntry\<close> compute from the rows of a group:
  \<open>(max_num || 0) + 1\<close>.
\<close>

definition next_number :: "Entry list \<Rightarrow> int" where
  "next_number rs = number_or (max_entry_number rs) 0 + 1"

text \<open>
  The texts of a create input that reach the database, and the inputs that a backend
  can store: PostgreSQL takes no text that holds U+0000.
\<close>

definition input_texts :: "CreateEntryInput \<Rightarrow> jsstring list" where
  "input_texts input =
     [new_project input, new_entry_date input, new_title input] @
     concat (map (\<lambda>v. case or_null v of None \<Rightarrow> [] | Some s \<Rightarrow> [s])
       [new_entry_type input, new_status input, new_summary input, new_details input,
        new_narrative_signal input, new_next_steps input])"

definition storable :: "bool \<Rightarrow> CreateEntryInput \<Rightarrow> bool" where
  "storable usePostgres input =
     (usePostgres \<longrightarrow> list_all (\<lambda>s. 0 \<notin> set s) (input_texts input))"

definition update_texts :: "UpdateEntryInput \<Rightarrow> jsstring list" where
  "update_texts input =
     concat (map (\<lambda>v. case v of None \<Rightarrow> [] | Some s \<Rightarrow> [s])
       [upd_entry_date input, upd_title input, upd_entry_type input, upd_status input,
        upd_summary input, upd_details input, upd_narrative_signal input,
        upd_next_steps input])"

definition updatable :: "bool \<Rightarrow> UpdateEntryInput \<Rightarrow> bool" where
  "updatable usePostgres input =
     (usePostgres \<longrightarrow> list_all (\<lambda>s. 0 \<notin> set s) (update_texts input))"

text \<open>An id that the backend can look up: PostgreSQL takes a 32-bit integer only.\<close>

definition valid_id :: "bool \<Rightarrow> int \<Rightarrow> bool" where
  "valid_id usePostgres i = (usePostgres \<longrightarrow> in_int4 i)"

text \<open>
  A run of \<open>createEntry\<close> calls, one after the other, each with its clock reading;
  the results are collected in call order.
\<close>

fun create_all ::
  "bool \<Rightarrow> (CreateEntryInput \<times> nat) list \<Rightarrow> store \<Rightarrow> (db_error + Entry option) list \<times> store" where
  "create_all usePostgres [] st = ([], st)"
| "create_all usePostgres ((input, now) # rest) st =
     (case createEntry usePostgres input now st of
        (r, st') \<Rightarrow> (case create_all usePostgres rest st' of (rs, st'') \<Rightarrow> (r # rs, st'')))"

text \<open>The text order and the conditions of the backend in use.\<close>

definition text_le :: "bool \<Rightarrow> environment \<Rightarrow> jsstring \<Rightarrow> jsstring \<Rightarrow> bool" where
  "text_le usePostgres env = (if usePostgres then pg_le env else binary_le)"

definition conditions_of :: "bool \<Rightarrow> environment \<Rightarrow> filters \<Rightarrow> (Entry \<Rightarrow> bool) list" where
  "conditions_of usePostgres env f =
     (if usePostgres then postgres_conditions env f else sqlite_conditions f)"

text \<open>
  The engine does what \<open>ORDER BY\<close> asks for: it returns the rows it was given, sorted
  by date and number, rows that tie in any order.
\<close>

definition obeys_order_by :: "bool \<Rightarrow> environment \<Rightarrow> bool" where
  "obeys_order_by usePostgres env =
     (\<forall>f rs. mset (order_by env f rs) = mset rs \<and>
             sorted_wrt (ordered_before (text_le usePostgres env)) (order_by env f rs))"

text \<open>
  An example of a deployment: a PostgreSQL database in the locale \<open>C\<close>, which compares
  text by code points and folds the case of the letters \<open>A\<close> to \<open>Z\<close> only, and engines
  that sort by insertion, so that rows that tie stay in table order. In the second
  example the engine reads the table backwards, so that rows that tie come in the
  opposite order.
\<close>

fun insert_ordered :: "(jsstring \<Rightarrow> jsstring \<Rightarrow> bool) \<Rightarrow> Entry \<Rightarrow> Entry list \<Rightarrow> Entry list" where
  "insert_ordered le e [] = [e]"
| "insert_ordered le e (x # xs) =
     (if ordered_before le e x then e # x # xs else x # insert_ordered le e xs)"

definition insertion_sort :: "(jsstring \<Rightarrow> jsstring \<Rightarrow> bool) \<Rightarrow> Entry list \<Rightarrow> Entry list" where
  "insertion_sort le rs = foldr (insert_ordered le) rs []"

definition c_locale :: environment where
  "c_locale =
     \<lparr>order_by = (\<lambda>f. insertion_sort binary_le), pg_lower = map lower_unit, pg_le = binary_le\<rparr>"

definition c_locale_backwards :: environment where
  "c_locale_backwards = c_locale\<lparr>order_by := (\<lambda>f rs. insertion_sort binary_le (rev rs))\<rparr>"

text \<open>The limit and the offset that \<open>listEntries\<close> passes to the engine.\<close>

definition effective_limit :: "filters \<Rightarrow> int" where
  "effective_limit f = min (number_or (f_limit f) 50) 200"

definition effective_offset :: "filters \<Rightarrow> int" where
  "effective_offset f = number_or (f_offset f) 0"

text \<open>An optional number that is not negative (\<open>undefined\<close> counts as such).\<close>

definition not_negative :: "int option \<Rightarrow> bool" where
  "not_negative v = (case v of None \<Rightarrow> True | Some n \<Rightarrow> 0 \<le> n)"

text \<open>
  The filters that the engine in use is known to accept. Limit and offset are not
  negative and the offset is a 64-bit integer. PostgreSQL takes no text parameter that
  holds U+0000. Both engines bound the size of a statement (in SQLite a \<open>LIKE\<close> pattern
  has at most 50000 bytes and an expression at most 1000 levels; every term of \<open>q\<close> adds
  a pattern and a level); these bounds are not modelled, and the filters meant here stay
  well within them: at most 100 terms of at most 10000 code units each.
\<close>

definition moderate_terms :: "jsstring list \<Rightarrow> bool" where
  "moderate_terms ts = (length ts \<le> 100 \<and> list_all (\<lambda>t. length t \<le> 10000) ts)"

definition accepted :: "bool \<Rightarrow> filters \<Rightarrow> bool" where
  "accepted usePostgres f =
     (not_negative (f_limit f) \<and> not_negative (f_offset f) \<and>
      in_int8 (effective_offset f) \<and>
      moderate_terms (if_truthy (f_q f) search_terms) \<and>
      (usePostgres \<longrightarrow> bind_error (postgres_params f) = None))"

text \<open>
  Auxiliary: the row that an update of \<open>existing\<close> leaves, with the date and number as
  both implementations compute them over the rows \<open>rs\<close> of the table. It is used to
  state what \<open>updateEntry\<close> does; the implementations above do not use it.
\<close>

definition updated_row :: "bool \<Rightarrow> UpdateEntryInput \<Rightarrow> nat \<Rightarrow> Entry list \<Rightarrow> Entry \<Rightarrow> Entry" where
  "updated_row usePostgres input now rs existing =
     (let moved = changes_date input existing;
          d = (if moved then scrub (the (upd_entry_date input)) else entry_date existing);
          n = (if moved
               then next_number (filter (\<lambda>e. in_group (project existing) (document_type existing) d e
                                          \<and> entry_id e \<noteq> entry_id existing) rs)
               else entry_number existing)
      in existing\<lparr>
           entry_date := d,
           entry_number := n,
           title := (case upd_title input of Some v \<Rightarrow> scrub v | None \<Rightarrow> title existing),
           entry_type := (case upd_entry_type input of Some v \<Rightarrow> Some (scrub v)
                          | None \<Rightarrow> entry_type existing),
           status := (case upd_status input of Some v \<Rightarrow> Some (scrub v)
                      | None \<Rightarrow> status existing),
           summary := (case upd_summary input of Some v \<Rightarrow> Some (scrub v)
                       | None \<Rightarrow> summary existing),
           details := (case upd_details input of Some v \<Rightarrow> Some (scrub v)
                       | None \<Rightarrow> details existing),
           narrative_signal := (case upd_narrative_signal input of Some v \<Rightarrow> Some (scrub v)
                                | None \<Rightarrow> narrative_signal existing),
           next_steps := (case upd_next_steps input of Some v \<Rightarrow> Some (scrub v)
                          | None \<Rightarrow> next_steps existing),
           updated_at := stamp usePostgres now\<rparr>)"

text \<open>Auxiliary: the row that the soft delete leaves.\<close>

definition soft_deleted :: "bool \<Rightarrow> nat \<Rightarrow> Entry \<Rightarrow> Entry" where
  "soft_deleted usePostgres now e = e\<lparr>is_deleted := 1, updated_at := stamp usePostgres now\<rparr>"

text \<open>
  Auxiliary: how \<open>createEntry\<close> keeps an optional input field: a provided, non-empty
  string as the database receives it, that is, with a surrogate outside a pair replaced
  by U+FFFD and otherwise unchanged; an omitted or empty one as \<open>NULL\<close>.
\<close>

definition kept_as :: "jsstring option \<Rightarrow> jsstring option \<Rightarrow> bool" where
  "kept_as given column =
     (case given of None \<Rightarrow> column = None
      | Some v \<Rightarrow> if v = [] then column = None else column = Some (scrub v))"

text \<open>
  Auxiliary, for the search: the field, read up to its first U+0000 if it holds one,
  contains the term as a substring, the letters \<open>A\<close> to \<open>Z\<close> counting as their lower-case
  forms and no other character being folded; a \<open>NULL\<close> field contains nothing.
\<close>

definition contains_ignoring_case :: "jsstring \<Rightarrow> jsstring option \<Rightarrow> bool" where
  "contains_ignoring_case t v =
     (case v of None \<Rightarrow> False
      | Some s \<Rightarrow> sublist (map lower_unit t) (map lower_unit (until_nul s)))"

text \<open>
  The terms that \<open>LIKE\<close> matches literally: without \<open>%\<close> and \<open>_\<close>, without the backslash
  where it escapes (PostgreSQL), and without U+0000 where it ends the pattern (SQLite).
\<close>

definition wildcards :: "bool \<Rightarrow> nat list" where
  "wildcards usePostgres = [37, 95] @ (if usePostgres then [92] else [0])"

definition plain_term :: "bool \<Rightarrow> jsstring \<Rightarrow> bool" where
  "plain_term usePostgres t = list_all (\<lambda>c. c \<notin> set (wildcards usePostgres)) t"

text \<open>
  Auxiliary, for the search: every term of \<open>q\<close>, as the database receives it, is
  contained in at least one of \<open>title\<close>, \<open>summary\<close>, \<open>details\<close>, \<open>next_steps\<close>.
\<close>

definition every_term_in_some_field :: "jsstring \<Rightarrow> Entry \<Rightarrow> bool" where
  "every_term_in_some_field q e =
     list_all (\<lambda>t. contains_ignoring_case (scrub t) (Some (title e)) \<or>
                    contains_ignoring_case (scrub t) (summary e) \<or>
                    contains_ignoring_case (scrub t) (details e) \<or>
                    contains_ignoring_case (scrub t) (next_steps e)) (search_terms q)"

text \<open>
  The case folding that the statement about the search is made for: the locale of the
  PostgreSQL database folds the letters \<open>A\<close> to \<open>Z\<close> and nothing else (as the locale \<open>C\<close>
  does). SQLite folds just these whatever the deployment.
\<close>

definition folds_ascii_only :: "bool \<Rightarrow> environment \<Rightarrow> bool" where
  "folds_ascii_only usePostgres env = (usePostgres \<longrightarrow> pg_lower env = map lower_unit)"

text \<open>Example data: stores without rows, and inputs of the shape the route builds.\<close>

definition unopened_store :: store where
  "unopened_store = \<lparr>sqliteDb = False, entries_table = None\<rparr>"

definition initialised_store :: store where
  "initialised_store = \<lparr>sqliteDb = False, entries_table = Some empty_table\<rparr>"

definition example_input :: CreateEntryInput where
  "example_input =
     \<lparr>new_project = js ''my-project'', new_document_type = dev_log,
      new_entry_date = js ''2025-06-30'', new_title = js ''Auth fix'',
      new_entry_type = None, new_status = Some (js ''complete''), new_summary = Some [],
      new_details = None, new_narrative_signal = None, new_next_steps = None\<rparr>"

text \<open>The same input with the title \<open>x\<close>, U+0000, \<open>y\<close>.\<close>

definition nul_title_input :: CreateEntryInput where
  "nul_title_input = example_input\<lparr>new_title := [120, 0, 121]\<rparr>"

text \<open>
  Example data, for either backend: three rows of one project and document type, two of
  one date, the first one soft-deleted, and one of the next day with the number 2; a
  table with the first two rows and a table with all three.
\<close>

definition example_row1 :: "bool \<Rightarrow> Entry" where
  "example_row1 usePostgres =
     \<lparr>entry_id = 1, project = js ''my-project'', document_type = dev_log,
      entry_date = js ''2025-06-30'', entry_number = 1, title = js ''Auth fix'',
      entry_type = None, status = Some (js ''complete''), summary = None, details = None,
      narrative_signal = None, next_steps = None, is_deleted = 1,
      created_at = stamp usePostgres 7, updated_at = stamp usePostgres 9\<rparr>"

definition example_row2 :: "bool \<Rightarrow> Entry" where
  "example_row2 usePostgres =
     \<lparr>entry_id = 2, project = js ''my-project'', document_type = dev_log,
      entry_date = js ''2025-06-30'', entry_number = 2, title = js ''Login page'',
      entry_type = None, status = None, summary = Some (js ''Fix the auth flow''),
      details = None, narrative_signal = None, next_steps = None, is_deleted = 0,
      created_at = stamp usePostgres 8, updated_at = stamp usePostgres 8\<rparr>"

definition example_row3 :: "bool \<Rightarrow> Entry" where
  "example_row3 usePostgres =
     \<lparr>entry_id = 3, project = js ''my-project'', document_type = dev_log,
      entry_date = js ''2025-07-01'', entry_number = 2, title = js ''Release notes'',
      entry_type = None, status = None, summary = None,
      details = None, narrative_signal = None, next_steps = None, is_deleted = 0,
      created_at = stamp usePostgres 10, updated_at = stamp usePostgres 10\<rparr>"

definition two_rows_store :: "bool \<Rightarrow> store" where
  "two_rows_store usePostgres =
     \<lparr>sqliteDb = True,
      entries_table = Some \<lparr>rows = [example_row1 usePostgres, example_row2 usePostgres], seq = 2\<rparr>\<rparr>"

definition three_rows_store :: "bool \<Rightarrow> store" where
  "three_rows_store usePostgres =
     \<lparr>sqliteDb = True,
      entries_table = Some \<lparr>rows = [example_row1 usePostgres, example_row2 usePostgres,
                                    example_row3 usePostgres], seq = 3\<rparr>\<rparr>"

definition example_update :: UpdateEntryInput where
  "example_update =
     \<lparr>upd_entry_date = Some (js ''2025-07-01''), upd_title = None, upd_entry_type = None,
      upd_status = Some (js ''blocked''), upd_summary = None, upd_details = None,
      upd_narrative_signal = None, upd_next_steps = None\<rparr>"

text \<open>The same update with the title \<open>x\<close>, U+0000, \<open>y\<close>.\<close>

definition nul_title_update :: UpdateEntryInput where
  "nul_title_update = example_update\<lparr>upd_title := Some [120, 0, 121]\<rparr>"

definition no_filter :: filters where
  "no_filter =
     \<lparr>f_project = None, f_document_type = None, f_after = None, f_before = None, f_q = None,
      f_limit = None, f_offset = None, f_includeDeleted = None\<rparr>"

text \<open>Example data: tables of \<open>n\<close> live rows, numbered 1 to \<open>n\<close> within one group.\<close>

definition numbered_row :: "bool \<Rightarrow> nat \<Rightarrow> Entry" where
  "numbered_row usePostgres k =
     (example_row2 usePostgres)\<lparr>entry_id := int k, entry_number := int k\<rparr>"

definition numbered_store :: "bool \<Rightarrow> nat \<Rightarrow> store" where
  "numbered_store usePostgres n =
     \<lparr>sqliteDb = True,
      entries_table = Some \<lparr>rows = map (numbered_row usePostgres) [1..<Suc n], seq = int n\<rparr>\<rparr>"
section \<open>Auxiliary facts\<close>

lemma max_entry_number_Max:
  "max_entry_number rs = (if rs = [] then None else Some (Max (entry_number ` set rs)))"
  by (induction rs) (auto simp: max_def split: option.splits)

lemma next_number_eq:
  "next_number rs = (if rs = [] then 1 else Max (entry_number ` set rs) + 1)"
  by (simp add: next_number_def max_entry_number_Max number_or_def)

lemma next_number_bound:
  assumes "e \<in> set rs"
  shows "entry_number e < next_number rs"
proof -
  have "entry_number e \<le> Max (entry_number ` set rs)"
    using assms by simp
  moreover have "rs \<noteq> []"
    using assms by auto
  ultimately show ?thesis
    by (simp add: next_number_eq)
qed

lemma next_number_range:
  assumes "\<forall>e \<in> set rs. lo \<le> entry_number e \<and> entry_number e + 1 \<le> hi" and "lo \<le> 1" and "1 \<le> hi"
  shows "lo \<le> next_number rs \<and> next_number rs \<le> hi"
proof (cases "rs = []")
  case True
  with assms show ?thesis by (simp add: next_number_eq)
next
  case False
  then have "Max (entry_number ` set rs) \<in> entry_number ` set rs"
    by (intro Max_in) auto
  then obtain e where "e \<in> set rs" "Max (entry_number ` set rs) = entry_number e" by auto
  with assms(1) False show ?thesis by (auto simp: next_number_eq)
qed

lemma fold_max_seq:
  "list_all (\<lambda>i. i \<le> s) is \<Longrightarrow> fold max is (s::int) = s"
  by (induction "is" arbitrary: s) auto

lemma table_literal:
  "(t::table)\<lparr>seq := a, rows := b\<rparr> = \<lparr>rows = b, seq = a\<rparr>"
  "t\<lparr>rows := b, seq := a\<rparr> = \<lparr>rows = b, seq = a\<rparr>"
  "t\<lparr>rows := b\<rparr> = \<lparr>rows = b, seq = seq t\<rparr>"
  "t\<lparr>seq := a\<rparr> = \<lparr>rows = rows t, seq = a\<rparr>"
  by (cases t; simp)+

lemma stamp_simps: "stamp True now = Date_time now" "stamp False now = Text_time now"
  by (simp_all add: stamp_def)

text \<open>Text as the database receives it.\<close>

lemma scrub_Cons_plain:
  "\<not> is_high c \<Longrightarrow> \<not> is_low c \<Longrightarrow> scrub (c # s) = c # scrub s"
  by (cases s) simp_all

lemma replacement_plain [simp]: "\<not> is_high 65533" "\<not> is_low 65533"
  by (simp_all add: is_high_def is_low_def)

lemma high_not_low: "is_high c \<Longrightarrow> \<not> is_low c"
  by (simp add: is_high_def is_low_def)

lemma scrub_idem [simp]: "scrub (scrub s) = scrub s"
  by (induction s rule: scrub.induct) (auto simp: scrub_Cons_plain)

lemma set_scrub: "set (scrub s) \<subseteq> insert 65533 (set s)"
  by (induction s rule: scrub.induct) auto

lemma scrub_without:
  "c \<notin> set s \<Longrightarrow> c \<noteq> 65533 \<Longrightarrow> c \<notin> set (scrub s)"
  using set_scrub [of s] by auto

lemma scrub_Nil_iff [simp]: "scrub s = [] \<longleftrightarrow> s = []"
  by (induction s rule: scrub.induct) auto

lemma text_ok_scrub: "(usePostgres \<longrightarrow> 0 \<notin> set s) \<Longrightarrow> text_ok usePostgres (scrub s)"
  by (simp add: text_ok_def scrub_without)

lemma text_ok_id: "text_ok usePostgres s \<Longrightarrow> scrub s = s"
  by (simp add: text_ok_def)

text \<open>The parameters of PostgreSQL statements.\<close>

lemma bind_error_append:
  "bind_error (ps @ qs) = (case bind_error ps of Some err \<Rightarrow> Some err | None \<Rightarrow> bind_error qs)"
  by (induction ps) (auto split: option.splits)

lemma bind_error_texts:
  "bind_error (map Text ss) = None \<longleftrightarrow> list_all (\<lambda>s. 0 \<notin> set s) ss"
  by (induction ss) auto

lemma text_params_map:
  "text_params vs = map Text (concat (map (\<lambda>v. case v of None \<Rightarrow> [] | Some s \<Rightarrow> [s]) vs))"
  by (induction vs) (auto simp: text_params_def split: option.splits)

lemma number_ok_int4: "number_ok True n \<Longrightarrow> in_int4 n"
  by (simp add: number_ok_def max_number_def in_int4_def)

text \<open>Stores.\<close>

lemma ready_table_ok: "ready up st \<Longrightarrow> table_ok (table_of st)"
  by (auto simp: ready_def table_of_def table_ok_def empty_table_def split: option.splits)

lemma ready_rows_ok: "ready up st \<Longrightarrow> list_all (row_ok up) (stored st)"
  by (auto simp: ready_def stored_def table_of_def empty_table_def split: option.splits)

lemma getSqliteDb_ready:
  "ready False st \<Longrightarrow> getSqliteDb st = (Inr (), store_after False st (table_of st))"
  by (cases st)
     (auto simp: ready_def getSqliteDb_def initSqliteSchema_def create_table_if_not_exists_def
        store_after_def table_of_def split: option.splits)

lemma query_after: "query g (store_after up st t) = (Inr (g t), store_after up st t)"
  by (simp add: query_def store_after_def)

lemma query_checked_after:
  "query_checked g (store_after up st t) = (g t, store_after up st t)"
  by (simp add: query_checked_def store_after_def)

lemma exec_after:
  "exec g (store_after up st t) = (fst (g t), store_after up st (snd (g t)))"
  by (simp add: exec_def store_after_def split: prod.splits)

lemma with_params_after:
  "with_params ps m (store_after up st t) =
     (case bind_error ps of Some err \<Rightarrow> (Inl err, store_after up st t)
      | None \<Rightarrow> m (store_after up st t))"
  by (simp add: with_params_def store_after_def split: option.splits)

lemma getSqliteDb_after: "getSqliteDb (store_after False st t) = (Inr (), store_after False st t)"
  by (simp add: getSqliteDb_def store_after_def)

lemma store_after_postgres:
  "ready True st \<Longrightarrow> store_after True st (table_of st) = st"
  by (cases st) (auto simp: ready_def store_after_def table_of_def split: option.splits)

lemma store_after_twice [simp]:
  "store_after up (store_after up st t) t' = store_after up st t'"
  by (simp add: store_after_def)

lemma table_of_after [simp]: "table_of (store_after up st t) = t"
  by (simp add: table_of_def store_after_def)

lemma stored_after [simp]: "stored (store_after up st t) = rows t"
  by (simp add: stored_def)

lemma ready_after [simp]:
  "ready up' (store_after up st t) = (table_ok t \<and> list_all (row_ok up') (rows t))"
  by (simp add: ready_def store_after_def)

lemma find_fresh_id:
  "list_all (\<lambda>e. entry_id e \<noteq> i) rs \<Longrightarrow> entry_id r = i \<Longrightarrow>
   find (\<lambda>e. entry_id e = i) (rs @ [r]) = Some r"
  by (induction rs) auto

lemma new_key_fresh:
  "unique_key (new_row input
      (next_number (filter (in_group (scrub (new_project input)) (new_document_type input)
         (scrub (new_entry_date input))) rs)) stmp i) \<notin> set (map unique_key rs)"
proof
  let ?g = "filter (in_group (scrub (new_project input)) (new_document_type input)
              (scrub (new_entry_date input))) rs"
  assume "unique_key (new_row input (next_number ?g) stmp i) \<in> set (map unique_key rs)"
  then obtain e where e: "e \<in> set rs"
      "unique_key e = unique_key (new_row input (next_number ?g) stmp i)"
    by auto
  then have "e \<in> set ?g"
    by (simp add: unique_key_def new_row_def in_group_def)
  from next_number_bound [OF this] e(2) show False
    by (simp add: unique_key_def new_row_def)
qed

lemma room_next_number:
  assumes "ready up st" and "room up n st" and "0 < n"
  shows "number_ok up (next_number (filter P (stored st)))"
    and "next_number (filter P (stored st)) + int n \<le> max_number up + 1"
proof -
  have rows: "\<forall>e \<in> set (filter P (stored st)).
      - max_number up \<le> entry_number e \<and> entry_number e + 1 \<le> max_number up + 1 - int n"
    using ready_rows_ok [OF assms(1)] assms(2)
    by (auto simp: room_def list_all_iff row_ok_def number_ok_def)
  have pos: "1 \<le> max_number up + 1 - int n"
    using assms ready_table_ok [OF assms(1)] by (simp add: room_def table_ok_def)
  then have "- max_number up \<le> 1" using assms(3) by simp
  from next_number_range [OF rows this pos] assms(3)
  show "number_ok up (next_number (filter P (stored st)))"
    and "next_number (filter P (stored st)) + int n \<le> max_number up + 1"
    by (simp_all add: number_ok_def)
qed

lemma storable_params:
  assumes "storable True input" and "in_int4 n"
  shows "bind_error [Text (new_project input), Text (new_entry_date input)] = None"
    and "bind_error
      ([Text (new_project input), Text (new_entry_date input), Int4 n, Text (new_title input)] @
       text_params [or_null (new_entry_type input), or_null (new_status input),
         or_null (new_summary input), or_null (new_details input),
         or_null (new_narrative_signal input), or_null (new_next_steps input)]) = None"
proof -
  from assms(1) have t: "0 \<notin> set (new_project input)" "0 \<notin> set (new_entry_date input)"
      "0 \<notin> set (new_title input)"
    and o: "list_all (\<lambda>s. 0 \<notin> set s)
      (concat (map (\<lambda>v. case v of None \<Rightarrow> [] | Some s \<Rightarrow> [s])
         [or_null (new_entry_type input), or_null (new_status input),
          or_null (new_summary input), or_null (new_details input),
          or_null (new_narrative_signal input), or_null (new_next_steps input)]))"
    by (simp_all add: storable_def input_texts_def)
  from t show "bind_error [Text (new_project input), Text (new_entry_date input)] = None"
    by simp
  from o have "bind_error (text_params [or_null (new_entry_type input), or_null (new_status input),
         or_null (new_summary input), or_null (new_details input),
         or_null (new_narrative_signal input), or_null (new_next_steps input)]) = None"
    by (simp only: text_params_map bind_error_texts)
  with t assms(2) show "bind_error
      ([Text (new_project input), Text (new_entry_date input), Int4 n, Text (new_title input)] @
       text_params [or_null (new_entry_type input), or_null (new_status input),
         or_null (new_summary input), or_null (new_details input),
         or_null (new_narrative_signal input), or_null (new_next_steps input)]) = None"
    by (simp add: bind_error_append)
qed

lemma storable_optional:
  assumes "storable up input" and "up"
    and "v \<in> {new_entry_type input, new_status input, new_summary input, new_details input,
        new_narrative_signal input, new_next_steps input}"
    and "or_null v = Some s"
  shows "0 \<notin> set s"
  using assms by (auto simp: storable_def input_texts_def)

lemma new_row_ok:
  assumes "storable up input" and "number_ok up n" and "number_ok up i"
  shows "row_ok up (new_row input n (stamp up now) i)"
proof -
  have t: "text_ok up (scrub (new_project input))" "text_ok up (scrub (new_entry_date input))"
      "text_ok up (scrub (new_title input))"
    using assms(1) by (auto simp: storable_def input_texts_def intro!: text_ok_scrub)
  have o: "text_ok up (scrub s)"
    if "v \<in> {new_entry_type input, new_status input, new_summary input, new_details input,
        new_narrative_signal input, new_next_steps input}" "or_null v = Some s" for v s
    using storable_optional [OF assms(1) _ that] by (intro text_ok_scrub) blast
  show ?thesis
    using t assms(2,3)
    by (auto simp: row_ok_def new_row_def stamp_def stamp_ok_def split: option.splits intro: o)
qed

text \<open>What \<open>createEntry\<close> does on a ready store, for either backend.\<close>

lemma createEntry_eq:
  assumes "ready usePostgres st" and "storable usePostgres input" and "room usePostgres 1 st"
  shows "createEntry usePostgres input now st =
     (let t = table_of st;
          row = new_row input
            (next_number (filter (in_group (scrub (new_project input)) (new_document_type input)
               (scrub (new_entry_date input))) (rows t))) (stamp usePostgres now) (seq t + 1)
      in (Inr (Some row), store_after usePostgres st \<lparr>rows = rows t @ [row], seq = seq t + 1\<rparr>))"
proof -
  let ?t = "table_of st"
  let ?n = "next_number (filter (in_group (scrub (new_project input)) (new_document_type input)
               (scrub (new_entry_date input))) (rows ?t))"
  let ?row = "new_row input ?n (stamp usePostgres now) (seq ?t + 1)"
  have ok: "table_ok ?t" using assms(1) by (rule ready_table_ok)
  have ids: "list_all (\<lambda>e. entry_id e \<noteq> seq ?t + 1) (rows ?t)"
    using ok by (auto simp: table_ok_def list_all_iff)
  have idset: "seq ?t + 1 \<notin> entry_id ` set (rows ?t)"
    using ids by (auto simp: list_all_iff)
  have fm: "fold max (map entry_id (rows ?t)) (seq ?t) = seq ?t"
    using ok by (intro fold_max_seq) (auto simp: table_ok_def list_all_iff)
  have key: "unique_key ?row \<notin> unique_key ` set (rows ?t)"
    using new_key_fresh [of input "rows ?t" "stamp usePostgres now" "seq ?t + 1"] by simp
  have rid: "entry_id ?row = seq ?t + 1" by (simp add: new_row_def)
  have n: "number_ok usePostgres ?n"
    using room_next_number(1) [OF assms(1,3)] by (simp add: stored_def)
  have s: "0 \<le> seq ?t" "seq ?t + 1 \<le> max_number usePostgres"
    using ok assms(3) by (simp_all add: table_ok_def room_def)
  show ?thesis
  proof (cases usePostgres)
    case True
    then have st: "store_after True st ?t = st"
      using assms by (simp add: store_after_postgres)
    have i4: "in_int4 (seq ?t + 1)" "in_int4 ?n"
      using s n True by (simp_all add: in_int4_def max_number_def number_ok_def)
    from assms(2) True have "storable True input" by simp
    note p = storable_params [OF this i4(2)]
    have "postgresCreateEntry input now (store_after True st ?t) =
       (Inr (Some ?row), store_after True st \<lparr>rows = rows ?t @ [?row], seq = seq ?t + 1\<rparr>)"
      using idset key i4(1) p True
      by (simp add: postgresCreateEntry_def bind_db_def with_params_after query_after exec_after
          postgres_insert_def return_db_def Let_def next_number_def [symmetric] table_literal
          stamp_def del: bind_error.simps)
    with True st show ?thesis
      by (simp add: createEntry_def Let_def)
  next
    case False
    then have g: "getSqliteDb st = (Inr (), store_after False st ?t)"
      using assms by (simp add: getSqliteDb_ready)
    have i8: "in_int8 (seq ?t + 1)"
      using s False by (simp add: in_int8_def max_number_def max_safe_integer_def)
    have "sqliteCreateEntry input now st =
       (Inr (Some ?row), store_after False st \<lparr>rows = rows ?t @ [?row], seq = seq ?t + 1\<rparr>)"
      using key find_fresh_id [OF ids rid] i8 False
      by (simp add: sqliteCreateEntry_def sqliteGetEntry_def bind_db_def g query_after exec_after
          getSqliteDb_after sqlite_insert_def fm return_db_def Let_def next_number_def [symmetric]
          select_by_id_def table_literal stamp_def)
    with False show ?thesis
      by (simp add: createEntry_def Let_def)
  qed
qed

section \<open>Sequence numbers on create\<close>

lemma next_number_snoc:
  "entry_number r = next_number xs \<Longrightarrow> next_number (xs @ [r]) = next_number xs + 1"
proof (cases "xs = []")
  case True
  assume "entry_number r = next_number xs"
  with True show ?thesis by (simp add: next_number_eq)
next
  case False
  assume r: "entry_number r = next_number xs"
  have "Max (insert (entry_number r) (entry_number ` set xs)) = max (entry_number r) (Max (entry_number ` set xs))"
    using False by (intro Max_insert) auto
  with r False show ?thesis by (simp add: next_number_eq)
qed

lemma table_ok_insert:
  assumes "table_ok t" "entry_id r = seq t + 1" "unique_key r \<notin> set (map unique_key (rows t))"
  shows "table_ok \<lparr>rows = rows t @ [r], seq = seq t + 1\<rparr>"
  using assms by (fastforce simp: table_ok_def list_all_iff)

lemma room_mono: "room up n st \<Longrightarrow> m \<le> n \<Longrightarrow> room up m st"
  by (auto simp: room_def list_all_iff)

lemma createEntry_ready:
  assumes "ready usePostgres st" and "storable usePostgres input" and "room usePostgres (Suc n) st"
  shows "ready usePostgres (snd (createEntry usePostgres input now st))"
    and "room usePostgres n (snd (createEntry usePostgres input now st))"
proof -
  let ?t = "table_of st"
  let ?n = "next_number (filter (in_group (scrub (new_project input)) (new_document_type input)
               (scrub (new_entry_date input))) (rows ?t))"
  let ?row = "new_row input ?n (stamp usePostgres now) (seq ?t + 1)"
  have r1: "room usePostgres 1 st" using assms(3) by (rule room_mono) simp
  have ok: "table_ok ?t" using assms(1) by (rule ready_table_ok)
  have n: "number_ok usePostgres ?n" "?n + int (Suc n) \<le> max_number usePostgres + 1"
    using room_next_number [OF assms(1,3)] by (simp_all add: stored_def)
  have s: "0 \<le> seq ?t" "seq ?t + int (Suc n) \<le> max_number usePostgres"
    using ok assms(3) by (simp_all add: table_ok_def room_def)
  then have i: "number_ok usePostgres (seq ?t + 1)" by (simp add: number_ok_def)
  have row: "row_ok usePostgres ?row" using assms(2) n(1) i by (rule new_row_ok)
  have t': "table_ok \<lparr>rows = rows ?t @ [?row], seq = seq ?t + 1\<rparr>"
    using ok new_key_fresh [of input "rows ?t" "stamp usePostgres now" "seq ?t + 1"]
    by (intro table_ok_insert) (simp_all add: new_row_def)
  show "ready usePostgres (snd (createEntry usePostgres input now st))"
    using t' row ready_rows_ok [OF assms(1)]
    by (simp add: createEntry_eq [OF assms(1,2) r1] Let_def stored_def)
  have "entry_number ?row + int n \<le> max_number usePostgres"
    using n(2) by (simp add: new_row_def)
  then show "room usePostgres n (snd (createEntry usePostgres input now st))"
    using s(2) assms(3)
    by (auto simp: createEntry_eq [OF assms(1,2) r1] Let_def room_def stored_def list_all_iff)
qed

lemma create_all_numbers:
  assumes "ready usePostgres st" and "list_all (\<lambda>(input, now). storable usePostgres input) inputs"
    and "room usePostgres (length inputs) st"
  shows "\<exists>es. fst (create_all usePostgres inputs st) = map (\<lambda>e. Inr (Some e)) es \<and>
     list_all2 (\<lambda>(input, now) e. \<exists>n i. e = new_row input n (stamp usePostgres now) i) inputs es \<and>
     map entry_number (filter (in_group p dt d) es) =
       map (\<lambda>k. next_number (filter (in_group p dt d) (stored st)) + int k)
         [0..<length (filter (in_group p dt d) es)]"
  using assms
proof (induction inputs arbitrary: st)
  case Nil
  then show ?case by simp
next
  case (Cons a inputs)
  obtain input now where a: "a = (input, now)" by (cases a)
  let ?t = "table_of st"
  let ?row = "new_row input (next_number (filter (in_group (scrub (new_project input))
      (new_document_type input) (scrub (new_entry_date input))) (rows ?t)))
      (stamp usePostgres now) (seq ?t + 1)"
  let ?st' = "store_after usePostgres st \<lparr>rows = rows ?t @ [?row], seq = seq ?t + 1\<rparr>"
  have sto: "storable usePostgres input" "list_all (\<lambda>(input, now). storable usePostgres input) inputs"
    using Cons.prems(2) a by simp_all
  have rm: "room usePostgres (Suc (length inputs)) st" using Cons.prems(3) by simp
  then have r1: "room usePostgres 1 st" by (rule room_mono) simp
  have c: "createEntry usePostgres input now st = (Inr (Some ?row), ?st')"
    using Cons.prems(1) sto(1) r1 by (simp add: createEntry_eq Let_def)
  have "ready usePostgres ?st'" "room usePostgres (length inputs) ?st'"
    using createEntry_ready [OF Cons.prems(1) sto(1) rm, of now] c by simp_all
  from Cons.IH [OF this(1) sto(2) this(2)] obtain es where es:
    "fst (create_all usePostgres inputs ?st') = map (\<lambda>e. Inr (Some e)) es"
    "list_all2 (\<lambda>(input, now) e. \<exists>n i. e = new_row input n (stamp usePostgres now) i) inputs es"
    "map entry_number (filter (in_group p dt d) es) =
       map (\<lambda>k. next_number (filter (in_group p dt d) (stored ?st')) + int k)
         [0..<length (filter (in_group p dt d) es)]"
    by blast
  have 1: "fst (create_all usePostgres (a # inputs) st) = map (\<lambda>e. Inr (Some e)) (?row # es)"
    using es(1) by (auto simp: a c split: prod.splits)
  have 2: "list_all2 (\<lambda>(input, now) e. \<exists>n i. e = new_row input n (stamp usePostgres now) i)
      (a # inputs) (?row # es)"
    using es(2) a by auto
  have 3: "map entry_number (filter (in_group p dt d) (?row # es)) =
       map (\<lambda>k. next_number (filter (in_group p dt d) (stored st)) + int k)
         [0..<length (filter (in_group p dt d) (?row # es))]"
  proof (cases "in_group p dt d ?row")
    case True
    then have g: "scrub (new_project input) = p" "new_document_type input = dt"
        "scrub (new_entry_date input) = d"
      by (simp_all add: in_group_def new_row_def)
    have n: "entry_number ?row = next_number (filter (in_group p dt d) (stored st))"
      by (simp add: new_row_def g stored_def)
    then have "next_number (filter (in_group p dt d) (stored ?st')) =
        next_number (filter (in_group p dt d) (stored st)) + 1"
      using True by (simp add: stored_def next_number_snoc)
    with es(3) True n show ?thesis
      by (simp add: upt_conv_Cons map_Suc_upt [symmetric] del: upt_Suc)
  next
    case False
    then have "filter (in_group p dt d) (stored ?st') = filter (in_group p dt d) (stored st)"
      by (simp add: stored_def)
    with es(3) False show ?thesis by simp
  qed
  from 1 2 3 show ?case by blast
qed

lemma js_simps: "js [] = []" "js (c # cs) = of_char c # js cs"
  by (simp_all add: js_def)

lemma js_Nil_iff [simp]: "js s = [] \<longleftrightarrow> s = []"
  by (simp add: js_def)

lemma ready_examples [simp]:
  "ready False unopened_store" "ready up initialised_store"
  by (simp_all add: ready_def unopened_store_def initialised_store_def table_ok_def empty_table_def)

lemma stored_examples [simp]:
  "stored unopened_store = []" "stored initialised_store = []"
  by (simp_all add: stored_def table_of_def unopened_store_def initialised_store_def empty_table_def)

lemma table_of_examples [simp]:
  "table_of unopened_store = empty_table" "table_of initialised_store = empty_table"
  by (simp_all add: table_of_def unopened_store_def initialised_store_def)

lemma room_examples [simp]:
  "n \<le> 1000 \<Longrightarrow> room up n unopened_store" "n \<le> 1000 \<Longrightarrow> room up n initialised_store"
  by (simp_all add: room_def empty_table_def max_number_def max_safe_integer_def)

lemma scrub_js [simp]: "scrub (js s) = js s"
proof (induction s)
  case Nil
  then show ?case by (simp add: js_simps)
next
  case (Cons c s)
  have "of_char c < (256::nat)" by simp
  then have "\<not> is_high (of_char c)" "\<not> is_low (of_char c)"
    unfolding is_high_def is_low_def by linarith+
  with Cons show ?case by (simp add: js_simps scrub_Cons_plain)
qed

lemma example_input_fields [simp]:
  "new_project example_input = js ''my-project''"
  "new_document_type example_input = dev_log"
  "new_entry_date example_input = js ''2025-06-30''"
  "new_title example_input = js ''Auth fix''"
  "new_entry_type example_input = None"
  "new_status example_input = Some (js ''complete'')"
  "new_summary example_input = Some []"
  "new_details example_input = None"
  "new_narrative_signal example_input = None"
  "new_next_steps example_input = None"
  by (simp_all add: example_input_def)

lemma storable_example [simp]: "storable up example_input"
  by (simp add: storable_def input_texts_def or_null_def js_simps)

lemma increasing_run:
  "sorted_wrt (<) (map (\<lambda>k. (b::int) + int k) [0..<n])"
  "distinct (map (\<lambda>k. (b::int) + int k) [0..<n])"
  by (simp_all add: sorted_wrt_map distinct_map inj_on_def)

lemma run_from_one: "map (\<lambda>k. 1 + int k) [0..<n] = map int [1..<Suc n]"
  by (induction n) auto




section \<open>Status normalisation\<close>

lemmas status_defs =
  normalizeStatus_def getStatusDisplay_def cleaned_def get_property_def or_else_def mappings_def
  STATUS_DISPLAY_def STATUS_OPTIONS_def object_prototype_keys_def emoji_units_def toLowerCase_def
  lower_unit_def trim_def is_space_def js_simps

lemma normalizeStatus_examples:
  "normalizeStatus ([9989] @ js '' Done'') = JString (js ''complete'')"
  "normalizeStatus (js ''URGENT'') = JString (js ''blocked'')"
  "normalizeStatus (js ''already_clean'') = JString (js ''already_clean'')"
  "normalizeStatus (js ''  In   Progress '') = JString (js ''in_progress'')"
  "normalizeStatus (js ''Partial'') = JString (js ''in_progress'')"
  "normalizeStatus (js ''inprogress'') = JString (js ''in_progress'')"
  by (simp_all add: status_defs)

lemma cleaned_strips_code_units:
  "cleaned ([55357, 56832] @ js '' ok'') = [56832] @ js ''_ok''"
  by (simp add: status_defs)

text \<open>
  Apart from the names of the members of \<open>Object.prototype\<close>, \<open>normalizeStatus\<close> does
  return a string: the alias of the cleaned input, or the cleaned input itself.
\<close>

lemma normalizeStatus_string:
  assumes "cleaned input \<notin> set object_prototype_keys"
  shows "normalizeStatus input =
     JString (case map_of mappings (cleaned input) of None \<Rightarrow> cleaned input | Some v \<Rightarrow> v)"
proof (cases "map_of mappings (cleaned input)")
  case None
  with assms show ?thesis
    by (simp add: normalizeStatus_def get_property_def or_else_def)
next
  case (Some v)
  then have "v \<in> snd ` set mappings" by (auto dest: map_of_SomeD intro: rev_image_eqI)
  then have "v \<noteq> []" by (auto simp: mappings_def js_simps)
  with Some show ?thesis
    by (simp add: normalizeStatus_def get_property_def or_else_def)
qed

text \<open>
  Claim C8. \<open>normalizeStatus\<close> is to return the cleaned string unchanged when it is not
  one of the four alias keys. The input \<open>constructor\<close> is already clean and is not an
  alias key, yet the lookup \<open>mappings[cleaned]\<close> finds the member of that name which the
  object literal inherits from \<open>Object.prototype\<close>; it is truthy, so \<open>||\<close> returns it
  and the result is not the string \<open>constructor\<close> (nor any string).
\<close>

theorem normalizeStatus_inherited_key:
  "cleaned (js ''constructor'') = js ''constructor'' \<and>
   map_of mappings (js ''constructor'') = None \<and>
   normalizeStatus (js ''constructor'') = JInherited (js ''constructor'') \<and>
   normalizeStatus (js ''constructor'') \<noteq> JString (js ''constructor'')"
  by (simp add: status_defs)

text \<open>
  Claim C10. The status keys are the six canonical ones; for each of them the display
  string is a string and normalising it gives the key back; and the display string of
  \<open>null\<close> and of the empty string is the empty string.
\<close>

theorem status_display_round_trip:
  "STATUS_OPTIONS =
     map js [''complete'', ''in_progress'', ''logged'', ''queued'', ''blocked'', ''observed''] \<and>
   list_all (\<lambda>k. case getStatusDisplay (Some k) of
                     JString d \<Rightarrow> normalizeStatus d = JString k
                   | JInherited _ \<Rightarrow> False) STATUS_OPTIONS \<and>
   getStatusDisplay None = JString [] \<and>
   getStatusDisplay (Some []) = JString []"
  by (simp add: status_defs)

section \<open>What the operations do on a ready store\<close>

lemma getEntry_eq:
  assumes "ready usePostgres st" and "valid_id usePostgres i"
  shows "getEntry usePostgres i st =
     (Inr (find (\<lambda>e. entry_id e = i) (stored st)), store_after usePostgres st (table_of st))"
proof (cases usePostgres)
  case True
  with assms have "store_after True st (table_of st) = st" by (simp add: store_after_postgres)
  moreover have "postgresGetEntry i (store_after True st (table_of st)) =
      (Inr (find (\<lambda>e. entry_id e = i) (stored st)), store_after True st (table_of st))"
    using assms(2) True
    by (simp add: postgresGetEntry_def with_params_after query_after select_by_id_def stored_def
        valid_id_def)
  ultimately show ?thesis using True by (simp add: getEntry_def)
next
  case False
  with assms show ?thesis
    by (simp add: getEntry_def sqliteGetEntry_def bind_db_def getSqliteDb_ready query_after
        select_by_id_def stored_def)
qed

lemma deleteEntry_hard_eq:
  assumes "ready usePostgres st" and "valid_id usePostgres i"
  shows "deleteEntry usePostgres i True now st =
     (Inr (\<exists>e \<in> set (stored st). entry_id e = i),
      store_after usePostgres st \<lparr>rows = filter (\<lambda>e. entry_id e \<noteq> i) (stored st), seq = seq (table_of st)\<rparr>)"
proof (cases usePostgres)
  case True
  with assms have "store_after True st (table_of st) = st" by (simp add: store_after_postgres)
  moreover have "postgresDeleteEntry i True now (store_after True st (table_of st)) =
     (Inr (\<exists>e \<in> set (stored st). entry_id e = i),
      store_after True st \<lparr>rows = filter (\<lambda>e. entry_id e \<noteq> i) (stored st), seq = seq (table_of st)\<rparr>)"
    using assms(2) True
    by (auto simp: postgresDeleteEntry_def bind_db_def with_params_after exec_after return_db_def
        delete_by_id_def stored_def table_literal filter_empty_conv valid_id_def)
  ultimately show ?thesis using True by (simp add: deleteEntry_def)
next
  case False
  with assms show ?thesis
    by (auto simp: deleteEntry_def sqliteDeleteEntry_def bind_db_def getSqliteDb_ready exec_after
        return_db_def delete_by_id_def stored_def table_literal filter_empty_conv)
qed

lemma map_if_id_absent:
  "\<forall>e \<in> set rs. entry_id e \<noteq> i \<Longrightarrow> map (\<lambda>e. if entry_id e = i then upd e else e) rs = rs"
  by (induction rs) auto

lemma distinct_keys_replace:
  assumes "distinct (map entry_id rs)" "distinct (map unique_key rs)"
    and "\<forall>e \<in> set rs. entry_id e \<noteq> i \<longrightarrow> unique_key e \<noteq> k"
    and "\<forall>e \<in> set rs. entry_id e = i \<longrightarrow> unique_key (upd e) = k"
  shows "distinct (map unique_key (map (\<lambda>e. if entry_id e = i then upd e else e) rs))"
  using assms
proof (induction rs)
  case Nil
  then show ?case by simp
next
  case (Cons e rs)
  show ?case
  proof (cases "entry_id e = i")
    case True
    with Cons.prems(1) have absent: "\<forall>x \<in> set rs. entry_id x \<noteq> i"
      by (auto simp: image_iff)
    then have "map (\<lambda>e. if entry_id e = i then upd e else e) rs = rs"
      by (rule map_if_id_absent)
    moreover have "unique_key (upd e) \<notin> unique_key ` set rs"
      using Cons.prems(3,4) True absent by auto
    ultimately show ?thesis using True Cons.prems(2) by simp
  next
    case False
    have "distinct (map unique_key (map (\<lambda>e. if entry_id e = i then upd e else e) rs))"
      using Cons.prems by (intro Cons.IH) auto
    moreover have "unique_key e \<notin> set (map unique_key (map (\<lambda>e. if entry_id e = i then upd e else e) rs))"
      using Cons.prems False by (auto split: if_splits)
    ultimately show ?thesis using False by simp
  qed
qed

lemma find_id_Some:
  "find (\<lambda>e. entry_id e = i) rs = Some ex \<Longrightarrow> ex \<in> set rs \<and> entry_id ex = i"
  by (induction rs) (auto split: if_splits)

lemma find_id_None:
  "find (\<lambda>e. entry_id e = i) rs = None \<longleftrightarrow> (\<forall>e \<in> set rs. entry_id e \<noteq> i)"
  by (induction rs) auto

lemma count_id_one:
  "distinct (map entry_id rs) \<Longrightarrow> ex \<in> set rs \<Longrightarrow>
   length (filter (\<lambda>e. entry_id e = entry_id ex) rs) = 1"
  by (induction rs) (auto simp: filter_empty_conv image_iff)

lemma same_id_same_row:
  "distinct (map entry_id rs) \<Longrightarrow> x \<in> set rs \<Longrightarrow> y \<in> set rs \<Longrightarrow> entry_id x = entry_id y \<Longrightarrow> x = y"
  by (auto simp: distinct_map inj_on_def)

lemma map_if_id_is:
  "distinct (map entry_id rs) \<Longrightarrow> ex \<in> set rs \<Longrightarrow>
   map (\<lambda>e. if entry_id e = entry_id ex then upd e else e) rs =
   map (\<lambda>e. if entry_id e = entry_id ex then upd ex else e) rs"
  by (auto dest: same_id_same_row)

text \<open>An update of a stored row whose new key no other row has.\<close>

lemma update_by_id_present:
  assumes ok: "table_ok t" and f: "find (\<lambda>e. entry_id e = i) (rows t) = Some ex"
    and fresh: "\<forall>e \<in> set (rows t). entry_id e \<noteq> i \<longrightarrow> unique_key e \<noteq> unique_key (upd ex)"
  shows "update_by_id i upd t =
     (Inr 1, \<lparr>rows = map (\<lambda>e. if entry_id e = i then upd ex else e) (rows t), seq = seq t\<rparr>)"
proof -
  from f have ex: "ex \<in> set (rows t)" "entry_id ex = i" by (auto dest: find_id_Some)
  have d: "distinct (map entry_id (rows t))" "distinct (map unique_key (rows t))"
    using ok by (simp_all add: table_ok_def)
  have same: "\<forall>e \<in> set (rows t). entry_id e = i \<longrightarrow> unique_key (upd e) = unique_key (upd ex)"
    using d(1) ex by (auto simp: distinct_map inj_on_def)
  have dist: "distinct (map unique_key (map (\<lambda>e. if entry_id e = i then upd e else e) (rows t)))"
    using d fresh same by (rule distinct_keys_replace)
  have cnt: "length (filter (\<lambda>e. entry_id e = i) (rows t)) = 1"
    using count_id_one [OF d(1) ex(1)] ex(2) by simp
  have rows': "map (\<lambda>e. if entry_id e = i then upd e else e) (rows t) =
      map (\<lambda>e. if entry_id e = i then upd ex else e) (rows t)"
    using map_if_id_is [OF d(1) ex(1), of upd] ex(2) by simp
  have "update_by_id i upd t =
      (if distinct (map unique_key (map (\<lambda>e. if entry_id e = i then upd e else e) (rows t)))
       then (Inr (length (filter (\<lambda>e. entry_id e = i) (rows t))),
             t\<lparr>rows := map (\<lambda>e. if entry_id e = i then upd e else e) (rows t)\<rparr>)
       else (Inl UniqueViolation, t))"
    by (simp add: update_by_id_def Let_def)
  also have "\<dots> = (Inr 1, t\<lparr>rows := map (\<lambda>e. if entry_id e = i then upd e else e) (rows t)\<rparr>)"
    by (simp only: dist cnt if_True)
  also have "\<dots> = (Inr 1, \<lparr>rows = map (\<lambda>e. if entry_id e = i then upd ex else e) (rows t), seq = seq t\<rparr>)"
    by (simp only: rows' table_literal)
  finally show ?thesis .
qed

lemma other_keys_differ:
  assumes "table_ok t" "ex \<in> set (rows t)" "e \<in> set (rows t)" "entry_id e \<noteq> entry_id ex"
  shows "unique_key e \<noteq> unique_key ex"
  using assms by (auto simp: table_ok_def distinct_map inj_on_def)

lemma find_replaced:
  "find (\<lambda>e. entry_id e = i) rs = Some ex \<Longrightarrow> entry_id r = i \<Longrightarrow>
   find (\<lambda>e. entry_id e = i) (map (\<lambda>e. if entry_id e = i then r else e) rs) = Some r"
  by (induction rs) (auto split: if_splits)

lemma updated_row_fields [simp]:
  "entry_id (updated_row up input now rs ex) = entry_id ex"
  "project (updated_row up input now rs ex) = project ex"
  "document_type (updated_row up input now rs ex) = document_type ex"
  "is_deleted (updated_row up input now rs ex) = is_deleted ex"
  "created_at (updated_row up input now rs ex) = created_at ex"
  "updated_at (updated_row up input now rs ex) = stamp up now"
  by (simp_all add: updated_row_def Let_def)

lemma updated_row_date_number:
  "entry_date (updated_row up input now rs ex) =
     (if changes_date input ex then scrub (the (upd_entry_date input)) else entry_date ex)"
  "entry_number (updated_row up input now rs ex) =
     (if changes_date input ex
      then next_number (filter (\<lambda>e. in_group (project ex) (document_type ex)
             (scrub (the (upd_entry_date input))) e \<and> entry_id e \<noteq> entry_id ex) rs)
      else entry_number ex)"
  by (simp_all add: updated_row_def Let_def)

lemma updated_row_key_fresh:
  assumes ok: "table_ok t" and ex: "ex \<in> set (rows t)"
    and e: "e \<in> set (rows t)" "entry_id e \<noteq> entry_id ex"
  shows "unique_key e \<noteq> unique_key (updated_row up input now (rows t) ex)"
proof (cases "changes_date input ex")
  case True
  show ?thesis
  proof
    assume eq: "unique_key e = unique_key (updated_row up input now (rows t) ex)"
    let ?g = "filter (\<lambda>e. in_group (project ex) (document_type ex)
             (scrub (the (upd_entry_date input))) e \<and> entry_id e \<noteq> entry_id ex) (rows t)"
    from eq True have "e \<in> set ?g"
      using e by (simp add: unique_key_def in_group_def updated_row_date_number)
    from next_number_bound [OF this] eq True show False
      by (simp add: unique_key_def updated_row_date_number)
  qed
next
  case False
  then have "unique_key (updated_row up input now (rows t) ex) = unique_key ex"
    by (simp add: unique_key_def updated_row_date_number)
  with other_keys_differ [OF ok ex e] show ?thesis by simp
qed

lemma sqlite_updates_eq:
  "fold (\<lambda>u. u)
     ([\<lambda>e. e\<lparr>updated_at := Text_time now\<rparr>] @
      (if changes_date input ex
       then [\<lambda>e. e\<lparr>entry_date := scrub (the (upd_entry_date input))\<rparr>,
             \<lambda>e. e\<lparr>entry_number := next_number (filter (\<lambda>e. in_group (project ex) (document_type ex)
                     (scrub (the (upd_entry_date input))) e \<and> entry_id e \<noteq> entry_id ex) rs)\<rparr>]
       else []) @ field_updates input) ex =
   updated_row False input now rs ex"
  by (cases "upd_title input"; cases "upd_entry_type input"; cases "upd_status input";
      cases "upd_summary input"; cases "upd_details input"; cases "upd_narrative_signal input";
      cases "upd_next_steps input";
      simp add: field_updates_def updated_row_def Let_def stamp_def)

lemma sqlite_updates_eq_id:
  "entry_id ex = i \<Longrightarrow>
   fold (\<lambda>u. u)
     ([\<lambda>e. e\<lparr>updated_at := Text_time now\<rparr>] @
      (if changes_date input ex
       then [\<lambda>e. e\<lparr>entry_date := scrub (the (upd_entry_date input))\<rparr>,
             \<lambda>e. e\<lparr>entry_number := next_number (filter (\<lambda>e. in_group (project ex) (document_type ex)
                     (scrub (the (upd_entry_date input))) e \<and> entry_id e \<noteq> i) rs)\<rparr>]
       else []) @ field_updates input) ex =
   updated_row False input now rs ex"
  using sqlite_updates_eq [of now input ex rs] by blast

text \<open>The \<open>SET\<close> clause and the parameters of the PostgreSQL update.\<close>

lemma or_existing_scrub:
  "scrub old = old \<Longrightarrow>
   scrub (or_existing v old) = (case v of Some x \<Rightarrow> scrub x | None \<Rightarrow> old)"
  by (simp add: or_existing_def split: option.splits)

lemma or_existing_null_scrub:
  "(case old of None \<Rightarrow> True | Some s \<Rightarrow> scrub s = s) \<Longrightarrow>
   map_option scrub (or_existing_null v old) = (case v of Some x \<Rightarrow> Some (scrub x) | None \<Rightarrow> old)"
  by (cases v; cases old) (simp_all add: or_existing_null_def)

lemma row_ok_texts:
  assumes "row_ok up e"
  shows "scrub (project e) = project e" "scrub (entry_date e) = entry_date e"
    "scrub (title e) = title e"
    "case entry_type e of None \<Rightarrow> True | Some s \<Rightarrow> scrub s = s"
    "case status e of None \<Rightarrow> True | Some s \<Rightarrow> scrub s = s"
    "case summary e of None \<Rightarrow> True | Some s \<Rightarrow> scrub s = s"
    "case details e of None \<Rightarrow> True | Some s \<Rightarrow> scrub s = s"
    "case narrative_signal e of None \<Rightarrow> True | Some s \<Rightarrow> scrub s = s"
    "case next_steps e of None \<Rightarrow> True | Some s \<Rightarrow> scrub s = s"
  using assms by (auto simp: row_ok_def text_ok_def split: option.splits)

lemma row_ok_nul_free:
  assumes "row_ok True e"
  shows "0 \<notin> set (project e)" "0 \<notin> set (entry_date e)" "0 \<notin> set (title e)"
    "case entry_type e of None \<Rightarrow> True | Some s \<Rightarrow> 0 \<notin> set s"
    "case status e of None \<Rightarrow> True | Some s \<Rightarrow> 0 \<notin> set s"
    "case summary e of None \<Rightarrow> True | Some s \<Rightarrow> 0 \<notin> set s"
    "case details e of None \<Rightarrow> True | Some s \<Rightarrow> 0 \<notin> set s"
    "case narrative_signal e of None \<Rightarrow> True | Some s \<Rightarrow> 0 \<notin> set s"
    "case next_steps e of None \<Rightarrow> True | Some s \<Rightarrow> 0 \<notin> set s"
  using assms by (auto simp: row_ok_def text_ok_def split: option.splits)

lemma postgres_update_set_eq:
  assumes "row_ok True ex"
  shows "postgres_update_set
       (if changes_date input ex then the (upd_entry_date input) else entry_date ex)
       (if changes_date input ex
         then next_number (filter (\<lambda>e. in_group (project ex) (document_type ex)
               (scrub (the (upd_entry_date input))) e \<and> entry_id e \<noteq> entry_id ex) rs)
         else entry_number ex) input ex now ex =
     updated_row True input now rs ex"
  using row_ok_texts [OF assms]
  by (simp add: postgres_update_set_def updated_row_def Let_def stamp_def or_existing_scrub
      or_existing_null_scrub)

lemma or_existing_nul_free:
  "0 \<notin> set old \<Longrightarrow> (case v of None \<Rightarrow> True | Some s \<Rightarrow> 0 \<notin> set s) \<Longrightarrow>
   0 \<notin> set (or_existing v old)"
  by (simp add: or_existing_def split: option.splits)

lemma or_existing_null_nul_free:
  "(case old of None \<Rightarrow> True | Some s \<Rightarrow> 0 \<notin> set s) \<Longrightarrow>
   (case v of None \<Rightarrow> True | Some s \<Rightarrow> 0 \<notin> set s) \<Longrightarrow>
   (case or_existing_null v old of None \<Rightarrow> True | Some s \<Rightarrow> 0 \<notin> set s)"
  by (simp add: or_existing_null_def split: option.splits)

lemma updatable_fields:
  assumes "updatable True input"
  shows "case upd_entry_date input of None \<Rightarrow> True | Some s \<Rightarrow> 0 \<notin> set s"
    "case upd_title input of None \<Rightarrow> True | Some s \<Rightarrow> 0 \<notin> set s"
    "case upd_entry_type input of None \<Rightarrow> True | Some s \<Rightarrow> 0 \<notin> set s"
    "case upd_status input of None \<Rightarrow> True | Some s \<Rightarrow> 0 \<notin> set s"
    "case upd_summary input of None \<Rightarrow> True | Some s \<Rightarrow> 0 \<notin> set s"
    "case upd_details input of None \<Rightarrow> True | Some s \<Rightarrow> 0 \<notin> set s"
    "case upd_narrative_signal input of None \<Rightarrow> True | Some s \<Rightarrow> 0 \<notin> set s"
    "case upd_next_steps input of None \<Rightarrow> True | Some s \<Rightarrow> 0 \<notin> set s"
  using assms by (auto simp: updatable_def update_texts_def split: option.splits)

lemma text_params_ok:
  "list_all (\<lambda>v. case v of None \<Rightarrow> True | Some s \<Rightarrow> 0 \<notin> set s) vs \<Longrightarrow>
   bind_error (text_params vs) = None"
  by (induction vs) (auto simp: text_params_def split: option.splits)

lemma postgres_update_params_ok:
  assumes "row_ok True ex" and "updatable True input" and "0 \<notin> set d" and "in_int4 n"
    and "in_int4 i"
  shows "bind_error (postgres_update_params d n input ex i) = None"
proof -
  note r = row_ok_nul_free [OF assms(1)]
  note u = updatable_fields [OF assms(2)]
  have "bind_error (text_params
       [or_existing_null (upd_entry_type input) (entry_type ex),
        or_existing_null (upd_status input) (status ex),
        or_existing_null (upd_summary input) (summary ex),
        or_existing_null (upd_details input) (details ex),
        or_existing_null (upd_narrative_signal input) (narrative_signal ex),
        or_existing_null (upd_next_steps input) (next_steps ex)]) = None"
    by (intro text_params_ok) (simp add: or_existing_null_nul_free r u)
  moreover have "0 \<notin> set (or_existing (upd_title input) (title ex))"
    by (intro or_existing_nul_free r u)
  ultimately show ?thesis
    using assms(3,4,5) by (simp add: postgres_update_params_def bind_error_append)
qed

lemma updateEntry_absent:
  assumes r: "ready usePostgres st" and f: "find (\<lambda>e. entry_id e = i) (stored st) = None"
    and v: "valid_id usePostgres i"
  shows "updateEntry usePostgres i input now st = (Inr None, store_after usePostgres st (table_of st))"
proof (cases usePostgres)
  case True
  with r have "store_after True st (table_of st) = st" by (simp add: store_after_postgres)
  moreover have "postgresUpdateEntry i input now (store_after True st (table_of st)) =
      (Inr None, store_after True st (table_of st))"
    using f v True
    by (simp add: postgresUpdateEntry_def postgresGetEntry_def bind_db_def with_params_after
        query_after select_by_id_def stored_def return_db_def valid_id_def)
  ultimately show ?thesis using True by (simp add: updateEntry_def)
next
  case False
  with r f show ?thesis
    by (simp add: updateEntry_def sqliteUpdateEntry_def sqliteGetEntry_def bind_db_def
        getSqliteDb_ready getSqliteDb_after query_after select_by_id_def stored_def return_db_def)
qed

lemma stored_row_ok: "ready up st \<Longrightarrow> e \<in> set (stored st) \<Longrightarrow> row_ok up e"
  using ready_rows_ok [of up st] by (simp add: list_all_iff)

lemma stored_valid_id: "ready up st \<Longrightarrow> e \<in> set (stored st) \<Longrightarrow> valid_id up (entry_id e)"
  using stored_row_ok [of up st e]
  by (auto simp: valid_id_def row_ok_def intro: number_ok_int4)

lemma updateEntry_present:
  assumes r: "ready usePostgres st" and f: "find (\<lambda>e. entry_id e = i) (stored st) = Some ex"
    and u: "updatable usePostgres input" and rm: "room usePostgres 1 st"
  shows "updateEntry usePostgres i input now st =
     (Inr (Some (updated_row usePostgres input now (stored st) ex)),
      store_after usePostgres st
        \<lparr>rows = map (\<lambda>e. if entry_id e = i then updated_row usePostgres input now (stored st) ex
                          else e) (stored st),
         seq = seq (table_of st)\<rparr>)"
proof -
  let ?t = "table_of st"
  let ?row = "updated_row usePostgres input now (rows ?t) ex"
  let ?t' = "\<lparr>rows = map (\<lambda>e. if entry_id e = i then ?row else e) (rows ?t), seq = seq ?t\<rparr>"
  let ?d = "the (upd_entry_date input)"
  let ?n = "next_number (filter (\<lambda>e. in_group (project ex) (document_type ex) (scrub ?d) e \<and>
               entry_id e \<noteq> i) (rows ?t))"
  have ok: "table_ok ?t" using r by (rule ready_table_ok)
  have f': "find (\<lambda>e. entry_id e = i) (rows ?t) = Some ex"
    using f by (simp add: stored_def)
  then have ex: "ex \<in> set (rows ?t)" "entry_id ex = i" by (auto dest: find_id_Some)
  have rex: "row_ok usePostgres ex"
    using r ex(1) stored_row_ok [of usePostgres st ex] by (simp add: stored_def)
  have pex: "scrub (project ex) = project ex" using rex by (rule row_ok_texts)
  have fresh: "\<forall>e \<in> set (rows ?t). entry_id e \<noteq> i \<longrightarrow> unique_key e \<noteq> unique_key ?row"
    using updated_row_key_fresh [OF ok ex(1)] ex(2) by blast
  have after: "find (\<lambda>e. entry_id e = i) (rows ?t') = Some ?row"
    using find_replaced [OF f', of ?row] ex(2) by simp
  have n: "number_ok usePostgres ?n"
    using room_next_number(1) [OF r rm] by (simp add: stored_def)
  show ?thesis
  proof (cases usePostgres)
    case True
    with r have st: "store_after True st ?t = st" by (simp add: store_after_postgres)
    have rT: "row_ok True ex" and uT: "updatable True input" using rex u True by simp_all
    have i4: "in_int4 i" "in_int4 ?n" "in_int4 (entry_number ex)"
      using rT n True ex(2) by (auto simp: row_ok_def intro: number_ok_int4)
    note nf = row_ok_nul_free [OF rT]
    have p0: "bind_error [Int4 i] = None" using i4(1) by simp
    have "postgresUpdateEntry i input now (store_after True st ?t) =
        (Inr (Some ?row), store_after True st ?t')"
    proof (cases "changes_date input ex")
      case ch: True
      then obtain d where d: "upd_entry_date input = Some d"
        by (auto simp: changes_date_def)
      have dn: "0 \<notin> set ?d" using updatable_fields(1) [OF uT] d by simp
      have p1: "bind_error [Text (project ex), Text ?d, Int4 i] = None"
        using nf(1) dn i4(1) by simp
      have p2: "bind_error (postgres_update_params ?d ?n input ex i) = None"
        using rT uT dn i4(2,1) by (rule postgres_update_params_ok)
      have row: "postgres_update_set ?d ?n input ex now ex = ?row"
        using postgres_update_set_eq [OF rT, of input "rows ?t" now] ch ex(2) True by simp
      have up: "update_by_id i (postgres_update_set ?d ?n input ex now) ?t = (Inr 1, ?t')"
        using update_by_id_present [OF ok f', of "postgres_update_set ?d ?n input ex now"] fresh
        by (simp only: row)
      show ?thesis
        using ch f' after p0 p1 p2 up
        by (simp add: postgresUpdateEntry_def postgresGetEntry_def bind_db_def with_params_after
            query_after exec_after select_by_id_def return_db_def next_number_def [symmetric] pex
            del: bind_error.simps)
    next
      case nc: False
      have p2: "bind_error (postgres_update_params (entry_date ex) (entry_number ex) input ex i) = None"
        using rT uT nf(2) i4(3,1) by (rule postgres_update_params_ok)
      have row: "postgres_update_set (entry_date ex) (entry_number ex) input ex now ex = ?row"
        using postgres_update_set_eq [OF rT, of input "rows ?t" now] nc True by simp
      have up: "update_by_id i (postgres_update_set (entry_date ex) (entry_number ex) input ex now) ?t =
          (Inr 1, ?t')"
        using update_by_id_present [OF ok f',
            of "postgres_update_set (entry_date ex) (entry_number ex) input ex now"] fresh
        by (simp only: row)
      show ?thesis
        using nc f' after p0 p2 up
        by (simp add: postgresUpdateEntry_def postgresGetEntry_def bind_db_def with_params_after
            query_after exec_after select_by_id_def return_db_def del: bind_error.simps)
    qed
    with True st show ?thesis unfolding stored_def by (simp add: updateEntry_def)
  next
    case False
    let ?upd = "\<lambda>e. fold (\<lambda>u. u)
     ([\<lambda>e. e\<lparr>updated_at := Text_time now\<rparr>] @
      (if changes_date input ex
       then [\<lambda>e. e\<lparr>entry_date := scrub ?d\<rparr>,
             \<lambda>e. e\<lparr>entry_number := ?n\<rparr>]
       else []) @ field_updates input) e"
    have row: "?upd ex = ?row"
      using sqlite_updates_eq_id [OF ex(2), of now input "rows ?t"] False by simp
    have up: "update_by_id i ?upd ?t = (Inr 1, ?t')"
      using update_by_id_present [OF ok f', of ?upd] fresh by (simp only: row)
    have "sqliteUpdateEntry i input now st = (Inr (Some ?row), store_after False st ?t')"
    proof (cases "changes_date input ex")
      case True
      with up have "update_by_id i (\<lambda>e. fold (\<lambda>u. u)
         ([\<lambda>e. e\<lparr>updated_at := Text_time now\<rparr>] @
           [\<lambda>e. e\<lparr>entry_date := scrub ?d\<rparr>, \<lambda>e. e\<lparr>entry_number := ?n\<rparr>]
           @ field_updates input) e) ?t = (Inr 1, ?t')"
        by (simp only: if_True)
      with True r False f' after show ?thesis
        by (simp add: sqliteUpdateEntry_def sqliteGetEntry_def bind_db_def getSqliteDb_ready
            getSqliteDb_after query_after exec_after select_by_id_def return_db_def
            next_number_def [symmetric] Let_def pex del: fold_simps fold_append append.simps)
    next
      case nc: False
      with up have "update_by_id i (\<lambda>e. fold (\<lambda>u. u)
         ([\<lambda>e. e\<lparr>updated_at := Text_time now\<rparr>] @ [] @ field_updates input) e) ?t = (Inr 1, ?t')"
        by (simp only: if_False)
      with nc r False f' after show ?thesis
        by (simp add: sqliteUpdateEntry_def sqliteGetEntry_def bind_db_def getSqliteDb_ready
            getSqliteDb_after query_after exec_after select_by_id_def return_db_def
            Let_def del: fold_simps fold_append append.simps)
    qed
    with False show ?thesis unfolding stored_def by (simp add: updateEntry_def)
  qed
qed

lemma update_by_id_same_key:
  assumes "table_ok t" "\<And>e. unique_key (upd e) = unique_key e"
  shows "update_by_id i upd t =
     (Inr (length (filter (\<lambda>e. entry_id e = i) (rows t))),
      \<lparr>rows = map (\<lambda>e. if entry_id e = i then upd e else e) (rows t), seq = seq t\<rparr>)"
proof -
  have "map unique_key (map (\<lambda>e. if entry_id e = i then upd e else e) (rows t)) =
      map unique_key (rows t)"
    using assms(2) by (induction "rows t") auto
  then show ?thesis
    using assms(1) by (simp add: update_by_id_def Let_def table_ok_def table_literal del: map_map)
qed

lemma deleteEntry_soft_eq:
  assumes "ready usePostgres st" and "valid_id usePostgres i"
  shows "deleteEntry usePostgres i False now st =
     (Inr (\<exists>e \<in> set (stored st). entry_id e = i),
      store_after usePostgres st
        \<lparr>rows = map (\<lambda>e. if entry_id e = i then soft_deleted usePostgres now e else e) (stored st),
         seq = seq (table_of st)\<rparr>)"
proof -
  let ?t = "table_of st"
  have ok: "table_ok ?t" using assms(1) by (rule ready_table_ok)
  have u: "update_by_id i (\<lambda>e. e\<lparr>is_deleted := 1, updated_at := s\<rparr>) ?t =
     (Inr (length (filter (\<lambda>e. entry_id e = i) (rows ?t))),
      \<lparr>rows = map (\<lambda>e. if entry_id e = i then e\<lparr>is_deleted := 1, updated_at := s\<rparr> else e) (rows ?t),
       seq = seq ?t\<rparr>)" for s
    using ok by (rule update_by_id_same_key) (simp add: unique_key_def)
  show ?thesis
  proof (cases usePostgres)
    case True
    with assms have "store_after True st ?t = st" by (simp add: store_after_postgres)
    moreover have "postgresDeleteEntry i False now (store_after True st ?t) =
     (Inr (\<exists>e \<in> set (stored st). entry_id e = i),
      store_after True st
        \<lparr>rows = map (\<lambda>e. if entry_id e = i then soft_deleted True now e else e) (stored st),
         seq = seq ?t\<rparr>)"
      unfolding stored_def soft_deleted_def stamp_simps using u [of "Date_time now"] assms(2) True
      by (auto simp: postgresDeleteEntry_def bind_db_def with_params_after exec_after return_db_def
          filter_empty_conv valid_id_def)
    ultimately show ?thesis using True by (simp add: deleteEntry_def cong: if_cong)
  next
    case False
    with assms u [of "Text_time now"] show ?thesis unfolding stored_def soft_deleted_def stamp_simps
      by (auto simp: deleteEntry_def sqliteDeleteEntry_def bind_db_def getSqliteDb_ready exec_after
          return_db_def filter_empty_conv stamp_def cong: if_cong)
  qed
qed

section \<open>Missing ids and date changes\<close>

lemma find_stored_row:
  "distinct (map entry_id rs) \<Longrightarrow> ex \<in> set rs \<Longrightarrow>
   find (\<lambda>e. entry_id e = entry_id ex) rs = Some ex"
  by (induction rs) (auto simp: image_iff)

lemma ready_find:
  assumes "ready up st" "ex \<in> set (stored st)"
  shows "find (\<lambda>e. entry_id e = entry_id ex) (stored st) = Some ex"
  using ready_table_ok [OF assms(1)] assms(2)
  by (simp add: stored_def table_ok_def find_stored_row)

lemma example_row_fields [simp]:
  "entry_id (example_row1 up) = 1" "entry_id (example_row2 up) = 2" "entry_id (example_row3 up) = 3"
  "entry_number (example_row1 up) = 1" "entry_number (example_row2 up) = 2"
  "entry_number (example_row3 up) = 2"
  "is_deleted (example_row1 up) = 1" "is_deleted (example_row2 up) = 0"
  "is_deleted (example_row3 up) = 0"
  "entry_date (example_row1 up) = js ''2025-06-30''"
  "entry_date (example_row2 up) = js ''2025-06-30''"
  "entry_date (example_row3 up) = js ''2025-07-01''"
  "project (example_row1 up) = js ''my-project''" "project (example_row2 up) = js ''my-project''"
  "project (example_row3 up) = js ''my-project''"
  "document_type (example_row1 up) = dev_log" "document_type (example_row2 up) = dev_log"
  "document_type (example_row3 up) = dev_log"
  by (simp_all add: example_row1_def example_row2_def example_row3_def)

lemma example_rows_ok [simp]:
  "row_ok up (example_row1 up)" "row_ok up (example_row2 up)" "row_ok up (example_row3 up)"
  by (simp_all add: row_ok_def example_row1_def example_row2_def example_row3_def text_ok_def
      number_ok_def max_number_def max_safe_integer_def stamp_def stamp_ok_def)
     (simp_all add: js_simps)

lemma example_dates_differ [simp]:
  "js ''2025-07-01'' \<noteq> js ''2025-06-30''" "js ''2025-06-30'' \<noteq> js ''2025-07-01''"
  by (simp_all add: js_simps)

lemma two_rows_facts [simp]:
  "ready up (two_rows_store up)"
  "stored (two_rows_store up) = [example_row1 up, example_row2 up]"
  "table_of (two_rows_store up) = \<lparr>rows = [example_row1 up, example_row2 up], seq = 2\<rparr>"
  "room up (Suc 0) (two_rows_store up)"
  by (simp_all add: ready_def stored_def table_of_def two_rows_store_def table_ok_def
      unique_key_def room_def max_number_def max_safe_integer_def)

lemma three_rows_facts [simp]:
  "ready up (three_rows_store up)"
  "stored (three_rows_store up) = [example_row1 up, example_row2 up, example_row3 up]"
  "table_of (three_rows_store up) =
     \<lparr>rows = [example_row1 up, example_row2 up, example_row3 up], seq = 3\<rparr>"
  "room up (Suc 0) (three_rows_store up)"
  by (simp_all add: ready_def stored_def table_of_def three_rows_store_def table_ok_def
      unique_key_def room_def max_number_def max_safe_integer_def)

text \<open>
  The claim C9 fails for the Postgres backend at an id beyond the range of the \<open>id\<close>
  column: no row has the id \<open>2^31\<close>, and both \<open>updateEntry\<close> and \<open>deleteEntry\<close> throw
  instead of reporting that there is no such entry.
\<close>

theorem missing_id_out_of_range_counterexample:
  "list_all (\<lambda>e. entry_id e \<noteq> 2147483648) (stored (two_rows_store True)) \<and>
   fst (updateEntry True 2147483648 example_update 9 (two_rows_store True)) = Inl OutOfRange \<and>
   fst (deleteEntry True 2147483648 False 9 (two_rows_store True)) = Inl OutOfRange"
  by (simp add: updateEntry_def postgresUpdateEntry_def postgresGetEntry_def deleteEntry_def
      postgresDeleteEntry_def bind_db_def with_params_def two_rows_store_def in_int4_def
      stored_def table_of_def)

text \<open>
  Claim C9, amended. On a ready store, for either backend and every id that the backend
  can look up (every integer for SQLite, a 32-bit integer for Postgres): when no row
  has the id, \<open>updateEntry\<close> returns \<open>null\<close> (a value, not an error) and \<open>deleteEntry\<close>
  returns \<open>false\<close>, and neither changes a stored row; and in every case \<open>deleteEntry\<close>
  returns \<open>true\<close> exactly when a row with the id is stored, that row then being removed
  (hard) or flagged (soft) and every other row left as it was.
\<close>

theorem update_delete_missing_id:
  assumes "ready usePostgres st" and "valid_id usePostgres i"
  shows "((\<forall>e \<in> set (stored st). entry_id e \<noteq> i) \<longrightarrow>
            (\<exists>st'. updateEntry usePostgres i input now st = (Inr None, st') \<and>
                   stored st' = stored st) \<and>
            (\<exists>st'. deleteEntry usePostgres i hard now st = (Inr False, st') \<and>
                   stored st' = stored st)) \<and>
         (\<exists>st'. deleteEntry usePostgres i hard now st =
                  (Inr (\<exists>e \<in> set (stored st). entry_id e = i), st') \<and>
                stored st' =
                  (if hard then filter (\<lambda>e. entry_id e \<noteq> i) (stored st)
                   else map (\<lambda>e. if entry_id e = i
                                  then e\<lparr>is_deleted := 1, updated_at := stamp usePostgres now\<rparr>
                                  else e) (stored st)))"
proof (intro conjI impI)
  assume absent: "\<forall>e \<in> set (stored st). entry_id e \<noteq> i"
  then have "find (\<lambda>e. entry_id e = i) (stored st) = None"
    by (simp add: find_id_None)
  then show "\<exists>st'. updateEntry usePostgres i input now st = (Inr None, st') \<and>
                   stored st' = stored st"
    using assms by (simp add: updateEntry_absent stored_def)
  show "\<exists>st'. deleteEntry usePostgres i hard now st = (Inr False, st') \<and>
                   stored st' = stored st"
    using assms absent
    by (cases hard) (simp_all add: deleteEntry_hard_eq deleteEntry_soft_eq map_if_id_absent)
next
  show "\<exists>st'. deleteEntry usePostgres i hard now st =
                  (Inr (\<exists>e \<in> set (stored st). entry_id e = i), st') \<and>
                stored st' =
                  (if hard then filter (\<lambda>e. entry_id e \<noteq> i) (stored st)
                   else map (\<lambda>e. if entry_id e = i
                                  then e\<lparr>is_deleted := 1, updated_at := stamp usePostgres now\<rparr>
                                  else e) (stored st))"
    using assms
    by (cases hard) (simp_all add: deleteEntry_hard_eq deleteEntry_soft_eq soft_deleted_def)
qed

theorem update_delete_missing_id_witness:
  "ready True (two_rows_store True) \<and> valid_id True 5 \<and> valid_id True 2 \<and>
   list_all (\<lambda>e. entry_id e \<noteq> 5) (stored (two_rows_store True)) \<and>
   fst (updateEntry True 5 example_update 9 (two_rows_store True)) = Inr None \<and>
   fst (deleteEntry True 5 False 9 (two_rows_store True)) = Inr False \<and>
   fst (deleteEntry True 2 False 9 (two_rows_store True)) = Inr True"
proof -
  have h: "ready True (two_rows_store True)" "valid_id True 5" "valid_id True 2"
    by (simp_all add: valid_id_def in_int4_def)
  have a: "\<forall>e \<in> set (stored (two_rows_store True)). entry_id e \<noteq> 5" by simp
  from update_delete_missing_id [OF h(1,2), of example_update 9 False] a
  have "fst (updateEntry True 5 example_update 9 (two_rows_store True)) = Inr None"
    "fst (deleteEntry True 5 False 9 (two_rows_store True)) = Inr False"
    by auto
  moreover from update_delete_missing_id [OF h(1,3), of example_update 9 False]
  have "fst (deleteEntry True 2 False 9 (two_rows_store True)) = Inr True"
    by auto
  ultimately show ?thesis using h a by simp
qed

lemma example_update_fields [simp]:
  "upd_entry_date example_update = Some (js ''2025-07-01'')"
  "upd_title example_update = None"
  "upd_status example_update = Some (js ''blocked'')"
  "updatable up example_update"
  by (simp_all add: example_update_def updatable_def update_texts_def js_simps)




section \<open>Round trip of optional fields\<close>

lemma kept_as_or_null [simp]: "kept_as v (map_option scrub (or_null v))"
  by (simp add: kept_as_def or_null_def split: option.splits)


text \<open>
  An input whose \<open>details\<close> is a high surrogate with no low surrogate after it: the
  entry read back has U+FFFD in its place, on either backend.
\<close>

lemma createEntry_lone_surrogate:
  "map_sum id (map_option details)
     (fst (createEntry up (example_input\<lparr>new_details := Some [120, 55357, 121]\<rparr>) 7
        initialised_store)) = Inr (Some (Some [120, 65533, 121]))"
proof -
  have "storable up (example_input\<lparr>new_details := Some [120, 55357, 121]\<rparr>)"
    by (simp add: storable_def input_texts_def or_null_def js_simps)
  then show ?thesis
    by (simp add: createEntry_eq Let_def new_row_def or_null_def is_high_def is_low_def)
qed



section \<open>Ordering, limit and total\<close>

lemma binary_le_total: "binary_le a b \<or> binary_le b a"
  by (auto simp: binary_le_def)

lemma binary_le_trans: "binary_le a b \<Longrightarrow> binary_le b c \<Longrightarrow> binary_le a c"
  by (auto simp: binary_le_def)

lemma ordered_before_total:
  assumes "\<forall>x y. le x y \<or> le y x"
  shows "ordered_before le a b \<or> ordered_before le b a"
  using assms by (auto simp: ordered_before_def)

lemma ordered_before_trans:
  assumes "\<forall>x y z. le x y \<longrightarrow> le y z \<longrightarrow> le x z"
    and "ordered_before le a b" and "ordered_before le b c"
  shows "ordered_before le a c"
  using assms(2,3) unfolding ordered_before_def by (meson assms(1) order_trans)

lemma mset_insert_ordered: "mset (insert_ordered le e xs) = add_mset e (mset xs)"
  by (induction xs) auto

lemma set_insert_ordered: "set (insert_ordered le e xs) = insert e (set xs)"
  by (induction xs) auto

lemma sorted_insert_ordered:
  assumes total: "\<forall>x y. le x y \<or> le y x"
    and trans: "\<forall>x y z. le x y \<longrightarrow> le y z \<longrightarrow> le x z"
  shows "sorted_wrt (ordered_before le) xs \<Longrightarrow>
         sorted_wrt (ordered_before le) (insert_ordered le e xs)"
proof (induction xs)
  case Nil
  then show ?case by simp
next
  case (Cons x xs)
  show ?case
  proof (cases "ordered_before le e x")
    case True
    then have "\<forall>y \<in> set xs. ordered_before le e y"
      using Cons.prems by (auto intro: ordered_before_trans [OF trans])
    with True Cons.prems show ?thesis by simp
  next
    case False
    then have "ordered_before le x e" using ordered_before_total [OF total] by blast
    with False Cons show ?thesis by (auto simp: set_insert_ordered)
  qed
qed

lemma mset_insertion_sort: "mset (insertion_sort le rs) = mset rs"
  by (induction rs) (simp_all add: insertion_sort_def mset_insert_ordered)

lemma length_insertion_sort [simp]: "length (insertion_sort le rs) = length rs"
  using mset_insertion_sort [of le rs] by (metis size_mset)

lemma binary_le_order:
  "\<forall>x y. binary_le x y \<or> binary_le y x"
  "\<forall>x y z. binary_le x y \<longrightarrow> binary_le y z \<longrightarrow> binary_le x z"
  using binary_le_total binary_le_trans by blast+

lemma sorted_insertion_sort:
  assumes "\<forall>x y. le x y \<or> le y x" and "\<forall>x y z. le x y \<longrightarrow> le y z \<longrightarrow> le x z"
  shows "sorted_wrt (ordered_before le) (insertion_sort le rs)"
  by (induction rs) (simp_all add: insertion_sort_def sorted_insert_ordered [OF assms])

lemma c_locale_fields [simp]:
  "order_by c_locale f = insertion_sort binary_le"
  "pg_lower c_locale = map lower_unit" "pg_le c_locale = binary_le"
  "order_by c_locale_backwards f rs = insertion_sort binary_le (rev rs)"
  "pg_lower c_locale_backwards = map lower_unit" "pg_le c_locale_backwards = binary_le"
  by (simp_all add: c_locale_def c_locale_backwards_def)

lemma text_le_c_locale [simp]:
  "text_le up c_locale = binary_le" "text_le up c_locale_backwards = binary_le"
  by (simp_all add: text_le_def)

lemma c_locale_obeys [simp]:
  "obeys_order_by up c_locale" "obeys_order_by up c_locale_backwards"
  by (simp_all add: obeys_order_by_def mset_insertion_sort
      sorted_insertion_sort [OF binary_le_order])

lemma obeys_order_by_mset: "obeys_order_by up env \<Longrightarrow> mset (order_by env f rs) = mset rs"
  by (simp add: obeys_order_by_def)

lemma obeys_order_by_set: "obeys_order_by up env \<Longrightarrow> set (order_by env f rs) = set rs"
  using obeys_order_by_mset [of up env f rs] by (metis set_mset_mset)

lemma obeys_order_by_length: "obeys_order_by up env \<Longrightarrow> length (order_by env f rs) = length rs"
  using obeys_order_by_mset [of up env f rs] by (metis size_mset)

lemma obeys_order_by_sorted:
  "obeys_order_by up env \<Longrightarrow> sorted_wrt (ordered_before (text_le up env)) (order_by env f rs)"
  by (simp add: obeys_order_by_def)

lemma sorted_wrt_take_drop:
  "sorted_wrt P xs \<Longrightarrow> sorted_wrt P (take n (drop k xs))"
  by (simp add: sorted_wrt_drop sorted_wrt_take)

text \<open>What \<open>listEntries\<close> does on a ready store, for either backend and every filter.\<close>

lemma listEntries_eq:
  assumes "ready usePostgres st"
  shows "listEntries usePostgres env f st =
     (let matching = filter (where_clause (conditions_of usePostgres env f)) (stored st);
          ordered = order_by env f matching;
          st' = store_after usePostgres st (table_of st);
          done = (\<lambda>r. case r of Inl err \<Rightarrow> (Inl err, st')
                       | Inr es \<Rightarrow> (Inr \<lparr>entries = es, total = length matching\<rparr>, st'))
      in if usePostgres then
           (case bind_error (postgres_params f @
                   [Int8 (effective_limit f), Int8 (effective_offset f)]) of
              Some err \<Rightarrow> (Inl err, st')
            | None \<Rightarrow> done (postgres_limit_offset (effective_limit f) (effective_offset f) ordered))
         else done (sqlite_limit_offset (effective_limit f) (effective_offset f) ordered))"
proof (cases usePostgres)
  case True
  with assms have st: "store_after True st (table_of st) = st" by (simp add: store_after_postgres)
  have "postgresListEntries env f (store_after True st (table_of st)) =
     (let matching = filter (where_clause (conditions_of True env f)) (stored st);
          ordered = order_by env f matching;
          st' = store_after True st (table_of st);
          done = (\<lambda>r. case r of Inl err \<Rightarrow> (Inl err, st')
                       | Inr es \<Rightarrow> (Inr \<lparr>entries = es, total = length matching\<rparr>, st'))
      in case bind_error (postgres_params f @
                   [Int8 (effective_limit f), Int8 (effective_offset f)]) of
              Some err \<Rightarrow> (Inl err, st')
            | None \<Rightarrow> done (postgres_limit_offset (effective_limit f) (effective_offset f) ordered))"
    by (auto simp: postgresListEntries_def bind_db_def with_params_after query_after
        query_checked_after return_db_def Let_def conditions_of_def stored_def effective_limit_def
        effective_offset_def bind_error_append split: sum.splits option.splits)
  with True st show ?thesis by (simp add: listEntries_def Let_def)
next
  case False
  with assms show ?thesis
    by (simp add: listEntries_def sqliteListEntries_def bind_db_def getSqliteDb_ready query_after
        query_checked_after return_db_def Let_def conditions_of_def stored_def effective_limit_def
        effective_offset_def split: sum.splits)
qed

lemma accepted_numbers:
  assumes "accepted up f"
  shows "0 \<le> effective_limit f" "effective_limit f \<le> 200" "0 \<le> effective_offset f"
    "in_int8 (effective_limit f)" "in_int8 (effective_offset f)"
  using assms
  by (auto simp: accepted_def effective_limit_def effective_offset_def number_or_def
      not_negative_def in_int8_def split: option.splits)

lemma accepted_params:
  assumes "accepted True f"
  shows "bind_error (postgres_params f @ [Int8 (effective_limit f), Int8 (effective_offset f)]) = None"
  using assms accepted_numbers(4,5) [OF assms] by (simp add: accepted_def bind_error_append)

lemma listEntries_page:
  assumes "ready usePostgres st" and "accepted usePostgres f"
  shows "listEntries usePostgres env f st =
     (Inr \<lparr>entries = take (nat (effective_limit f)) (drop (nat (effective_offset f))
              (order_by env f (filter (where_clause (conditions_of usePostgres env f)) (stored st)))),
           total = length (filter (where_clause (conditions_of usePostgres env f)) (stored st))\<rparr>,
      store_after usePostgres st (table_of st))"
proof (cases usePostgres)
  case True
  with assms(2) have "accepted True f" by simp
  from accepted_params [OF this] accepted_numbers(1,3) [OF this] True show ?thesis
    unfolding listEntries_eq [OF assms(1)] by (simp add: Let_def postgres_limit_offset_def)
next
  case False
  with accepted_numbers [OF assms(2)] show ?thesis
    unfolding listEntries_eq [OF assms(1)] by (simp add: Let_def sqlite_limit_offset_def)
qed

lemma listEntries_subset:
  assumes "ready usePostgres st" and "obeys_order_by usePostgres env"
    and "listEntries usePostgres env f st = (Inr res, st')"
  shows "set (entries res) \<subseteq>
     set (filter (where_clause (conditions_of usePostgres env f)) (stored st))"
proof -
  let ?matching = "filter (where_clause (conditions_of usePostgres env f)) (stored st)"
  have "set es \<subseteq> set ?matching"
    if "postgres_limit_offset l off (order_by env f ?matching) = Inr es \<or>
        sqlite_limit_offset l off (order_by env f ?matching) = Inr es" for l off es
    using that obeys_order_by_set [OF assms(2), of f ?matching]
    by (auto simp: postgres_limit_offset_def sqlite_limit_offset_def Let_def
        split: if_splits dest!: in_set_takeD in_set_dropD)
  moreover from assms(3)
  have "postgres_limit_offset (effective_limit f) (effective_offset f)
        (order_by env f ?matching) = Inr (entries res) \<or>
      sqlite_limit_offset (effective_limit f) (effective_offset f)
        (order_by env f ?matching) = Inr (entries res)"
    unfolding listEntries_eq [OF assms(1)]
    by (auto simp: Let_def split: if_splits option.splits sum.splits)
  ultimately show ?thesis by blast
qed

lemma no_filter_fields [simp]:
  "f_project no_filter = None" "f_document_type no_filter = None" "f_after no_filter = None"
  "f_before no_filter = None" "f_q no_filter = None" "f_limit no_filter = None"
  "f_offset no_filter = None" "f_includeDeleted no_filter = None"
  by (simp_all add: no_filter_def)

lemma conditions_no_filter [simp]:
  "conditions_of up env (no_filter\<lparr>f_limit := l, f_offset := off\<rparr>) = [\<lambda>e. is_deleted e = 0]"
  "conditions_of up env (no_filter\<lparr>f_limit := l\<rparr>) = [\<lambda>e. is_deleted e = 0]"
  "conditions_of up env no_filter = [\<lambda>e. is_deleted e = 0]"
  "conditions_of up env (no_filter\<lparr>f_includeDeleted := Some True, f_limit := l\<rparr>) = []"
  "conditions_of up env (no_filter\<lparr>f_includeDeleted := Some True\<rparr>) = []"
  by (simp_all add: conditions_of_def postgres_conditions_def sqlite_conditions_def
      build_conditions_def if_truthy_def)

lemma accepted_no_filter [simp]:
  "not_negative l \<Longrightarrow> accepted up (no_filter\<lparr>f_limit := l\<rparr>)"
  "accepted up no_filter"
  "not_negative l \<Longrightarrow> accepted up (no_filter\<lparr>f_includeDeleted := d, f_limit := l\<rparr>)"
  by (simp_all add: accepted_def not_negative_def effective_offset_def number_or_def in_int8_def
      if_truthy_def moderate_terms_def postgres_params_def)

lemma numbered_row_fields [simp]:
  "entry_id (numbered_row up k) = int k" "entry_number (numbered_row up k) = int k"
  "is_deleted (numbered_row up k) = 0" "entry_date (numbered_row up k) = js ''2025-06-30''"
  by (simp_all add: numbered_row_def example_row2_def)

lemma numbered_store_facts:
  assumes "n \<le> 1000"
  shows "ready up (numbered_store up n)"
    and "stored (numbered_store up n) = map (numbered_row up) [1..<Suc n]"
    and "table_of (numbered_store up n) = \<lparr>rows = map (numbered_row up) [1..<Suc n], seq = int n\<rparr>"
proof -
  have "distinct (map entry_id (map (numbered_row up) [1..<Suc n]))"
    by (simp add: distinct_map inj_on_def comp_def del: upt_Suc)
  moreover have "distinct (map unique_key (map (numbered_row up) [1..<Suc n]))"
    by (simp add: distinct_map inj_on_def comp_def unique_key_def del: upt_Suc)
  moreover have "list_all (\<lambda>e. entry_id e \<le> int n) (map (numbered_row up) [1..<Suc n])"
    by (auto simp: list_all_iff simp del: upt_Suc)
  moreover have "row_ok up (numbered_row up k)" if "k \<le> 1000" for k
    using that example_rows_ok(2) [of up]
    by (simp add: row_ok_def numbered_row_def number_ok_def max_number_def max_safe_integer_def)
  then have "list_all (row_ok up) (map (numbered_row up) [1..<Suc n])"
    using assms by (auto simp: list_all_iff simp del: upt_Suc)
  ultimately show "ready up (numbered_store up n)"
    by (simp add: ready_def numbered_store_def table_ok_def del: upt_Suc)
  show "stored (numbered_store up n) = map (numbered_row up) [1..<Suc n]"
    "table_of (numbered_store up n) = \<lparr>rows = map (numbered_row up) [1..<Suc n], seq = int n\<rparr>"
    by (simp_all add: stored_def table_of_def numbered_store_def del: upt_Suc)
qed

lemma numbered_rows_live:
  "filter (where_clause [\<lambda>e. is_deleted e = 0]) (map (numbered_row up) ks) =
   map (numbered_row up) ks"
  by (induction ks) (simp_all add: where_clause_def)


text \<open>
  An offset of \<open>2^63\<close> is rejected by either engine, and a negative limit is taken
  differently by the two: SQLite reads it as no limit, PostgreSQL rejects it.
\<close>

lemma offset_out_of_range:
  "fst (listEntries False env (no_filter\<lparr>f_offset := Some 9223372036854775808\<rparr>)
     (two_rows_store False)) = Inl DatatypeMismatch"
  "fst (listEntries True env (no_filter\<lparr>f_offset := Some 9223372036854775808\<rparr>)
     (two_rows_store True)) = Inl OutOfRange"
  by (simp_all add: listEntries_eq Let_def effective_limit_def effective_offset_def number_or_def
      sqlite_limit_offset_def in_int8_def postgres_params_def if_truthy_def)

lemma negative_limit_differs:
  "map_sum id (map entry_id \<circ> entries)
     (fst (listEntries False c_locale (no_filter\<lparr>f_limit := Some (- 1)\<rparr>) (two_rows_store False))) =
     Inr [2]"
  "fst (listEntries True c_locale (no_filter\<lparr>f_limit := Some (- 1)\<rparr>) (two_rows_store True)) =
     Inl NegativeLimit"
  by (simp_all add: listEntries_eq Let_def effective_limit_def effective_offset_def number_or_def
      sqlite_limit_offset_def postgres_limit_offset_def in_int8_def postgres_params_def
      if_truthy_def where_clause_def insertion_sort_def)

text \<open>Sorting the numbered rows: they come out from the largest number down.\<close>

lemma insert_ordered_last:
  "\<forall>x \<in> set xs. \<not> ordered_before le e x \<Longrightarrow> insert_ordered le e xs = xs @ [e]"
  by (induction xs) auto

lemma code_points_js [simp]: "code_points (js s) = js s"
proof (induction s)
  case Nil
  then show ?case by (simp add: js_simps)
next
  case (Cons c s)
  have "of_char c < (256::nat)" by simp
  then have "\<not> is_high (of_char c)"
    unfolding is_high_def by linarith
  with Cons show ?case by (cases s) (simp_all add: js_simps)
qed

lemma numbered_rows_order:
  "ordered_before binary_le (numbered_row up j) (numbered_row up k) \<longleftrightarrow> k \<le> j"
  by (simp add: ordered_before_def binary_le_def)

lemma insertion_sort_numbered:
  "insertion_sort binary_le (map (numbered_row up) [a..<b]) = rev (map (numbered_row up) [a..<b])"
proof (induction "b - a" arbitrary: a)
  case 0
  then show ?case by (simp add: insertion_sort_def)
next
  case (Suc n)
  then have ab: "a < b" and n: "n = b - Suc a" by simp_all
  have "insertion_sort binary_le (map (numbered_row up) [a..<b]) =
      insert_ordered binary_le (numbered_row up a)
        (insertion_sort binary_le (map (numbered_row up) [Suc a..<b]))"
    using ab by (simp add: insertion_sort_def upt_conv_Cons)
  also have "\<dots> = insert_ordered binary_le (numbered_row up a)
      (rev (map (numbered_row up) [Suc a..<b]))"
    using Suc.hyps(1) [OF n] by simp
  also have "\<dots> = rev (map (numbered_row up) [Suc a..<b]) @ [numbered_row up a]"
    by (intro insert_ordered_last) (auto simp: numbered_rows_order)
  also have "\<dots> = rev (map (numbered_row up) [a..<b])"
    using ab by (simp add: upt_conv_Cons)
  finally show ?case .
qed



end
